theory Spec2Isabelle
  imports
    Complex_Main
    "HOL-Library.Word"
    "HOL-Library.List_Lexorder"
    "HOL-Library.Product_Lexorder"
    "HOL-Library.Multiset"
begin

section \<open>JavaScript values\<close>

text \<open>
  A JavaScript string is a sequence of UTF-16 code units. The literals of the source
  are ASCII, written here as \<open>js ''...''\<close>.
\<close>

type_synonym jsstring = "16 word list"

definition js :: "string \<Rightarrow> jsstring" where
  "js s = map of_char s"

text \<open>
  \<open>String.prototype.trim\<close> removes the leading and trailing code units that are
  WhiteSpace or LineTerminator of ECMAScript: TAB, LF, VT, FF, CR, SP, NBSP, U+1680,
  U+2000 to U+200A, U+2028, U+2029, U+202F, U+205F, U+3000 and U+FEFF.
\<close>

definition is_whitespace :: "16 word \<Rightarrow> bool" where
  "is_whitespace c =
     (c = 0x09 \<or> c = 0x0A \<or> c = 0x0B \<or> c = 0x0C \<or> c = 0x0D \<or> c = 0x20 \<or> c = 0xA0
      \<or> c = 0x1680 \<or> (0x2000 \<le> c \<and> c \<le> 0x200A) \<or> c = 0x2028 \<or> c = 0x2029
      \<or> c = 0x202F \<or> c = 0x205F \<or> c = 0x3000 \<or> c = 0xFEFF)"

definition trim :: "jsstring \<Rightarrow> jsstring" where
  "trim s = rev (dropWhile is_whitespace (rev (dropWhile is_whitespace s)))"

text \<open>
  The values a parsed JSON body (or a mocked \<open>response.json()\<close>) can hold. A number
  is the IEEE double the parser produced; only whether it is zero or NaN is observed
  by this program. \<open>JObj\<close> lists the members in the order of the text.
\<close>

datatype jsnum = NumNaN | NumInf bool | NumFin rat

datatype jsval =
    JUndefined
  | JNull
  | JBool bool
  | JNum jsnum
  | JStr jsstring
  | JArr "jsval list"
  | JObj "(jsstring \<times> jsval) list"

text \<open>ToBoolean: what \<open>!v\<close>, \<open>v || w\<close> and \<open>if (v)\<close> test.\<close>

fun truthy :: "jsval \<Rightarrow> bool" where
  "truthy JUndefined = False"
| "truthy JNull = False"
| "truthy (JBool b) = b"
| "truthy (JNum NumNaN) = False"
| "truthy (JNum (NumInf s)) = True"
| "truthy (JNum (NumFin r)) = (r \<noteq> 0)"
| "truthy (JStr s) = (s \<noteq> [])"
| "truthy (JArr xs) = True"
| "truthy (JObj kvs) = True"

definition or_else :: "jsval \<Rightarrow> jsval \<Rightarrow> jsval" where
  "or_else v w = (if truthy v then v else w)"

text \<open>
  What a \<open>throw\<close> carries, as far as the \<open>catch\<close> of \<open>handleSearch\<close> looks at it:
  an instance of \<open>Error\<close> with its message, or any other value.
\<close>

datatype thrown = ErrorObj jsstring | NonError

text \<open>
  The message of the TypeError raised by reading a property of \<open>null\<close> or
  \<open>undefined\<close>. Its wording is the engine's (V8's here).
\<close>

definition type_error_message :: "jsval \<Rightarrow> jsstring \<Rightarrow> jsstring" where
  "type_error_message v k =
     js ''Cannot read properties of '' @ (if v = JNull then js ''null'' else js ''undefined'')
       @ js '' (reading '' @ [0x27] @ k @ [0x27] @ js '')''"

text \<open>
  The member \<open>k\<close> of an object: the last one of that name (as \<open>JSON.parse\<close> keeps
  it), \<open>undefined\<close> when there is none.
\<close>

definition own_member :: "(jsstring \<times> jsval) list \<Rightarrow> jsstring \<Rightarrow> jsval" where
  "own_member kvs k = (case map_of (rev kvs) k of Some v \<Rightarrow> v | None \<Rightarrow> JUndefined)"

text \<open>
  \<open>v.k\<close> for a member name \<open>k\<close> that is not inherited from a prototype and is
  neither \<open>length\<close> nor an index (the program reads \<open>results\<close> and \<open>errors\<close>):
  a TypeError on \<open>null\<close> and \<open>undefined\<close>, the member of an object,
  \<open>undefined\<close> on every other value.
\<close>

fun member_of :: "jsval \<Rightarrow> jsstring \<Rightarrow> thrown + jsval" where
  "member_of JUndefined k = Inl (ErrorObj (type_error_message JUndefined k))"
| "member_of JNull k = Inl (ErrorObj (type_error_message JNull k))"
| "member_of (JObj kvs) k = Inr (own_member kvs k)"
| "member_of v k = Inr JUndefined"

text \<open>Number-to-string of a non-negative integer: its decimal digits.\<close>

fun number_to_string :: "nat \<Rightarrow> jsstring" where
  "number_to_string n =
     (if n < 10 then [0x30 + of_nat n]
      else number_to_string (n div 10) @ [0x30 + of_nat (n mod 10)])"

declare number_to_string.simps [simp del]

section \<open>SearchForm\<close>

text \<open>
  \<open>handleSubmit\<close> of \<open>components/SearchForm.tsx\<close>, on the component's
  \<open>inputValue\<close>: the argument \<open>onSearch\<close> is called with, or \<open>None\<close> when the
  handler returns without calling it.
\<close>

definition handleSubmit :: "jsstring \<Rightarrow> jsstring option" where
  "handleSubmit inputValue =
     (if trim inputValue = [] then None else Some (trim inputValue))"

section \<open>The fetch call\<close>

record request =
  req_url :: jsstring
  req_method :: jsstring
  req_headers :: "(jsstring \<times> jsstring) list"
  req_body :: jsstring

text \<open>
  \<open>response.json()\<close> is a promise: it may stay pending, reject, or resolve to a
  value. \<open>response.ok\<close> is, by the Fetch standard, that the status is in 200..299.
\<close>

datatype json_outcome = JsonPending | JsonRejected thrown | JsonResolved jsval

record response =
  status :: nat
  json_body :: json_outcome

definition ok :: "response \<Rightarrow> bool" where
  "ok r = (200 \<le> status r \<and> status r \<le> 299)"

datatype fetch_outcome = FetchPending | FetchRejected thrown | FetchResolved response

section \<open>The request\<close>

text \<open>
  \<open>JSON.stringify\<close> of a string (QuoteJSONString of ECMAScript): the two-character
  escapes, \<open>\uXXXX\<close> (lower-case hexadecimal) for the other control characters and
  for a surrogate that has no partner, every other code unit as it is.
\<close>

definition is_high_surrogate :: "16 word \<Rightarrow> bool" where
  "is_high_surrogate c = (0xD800 \<le> c \<and> c \<le> 0xDBFF)"

definition is_low_surrogate :: "16 word \<Rightarrow> bool" where
  "is_low_surrogate c = (0xDC00 \<le> c \<and> c \<le> 0xDFFF)"

definition hex_digit :: "nat \<Rightarrow> 16 word" where
  "hex_digit d = (if d < 10 then 0x30 + of_nat d else 0x61 + of_nat (d - 10))"

definition unicode_escape :: "16 word \<Rightarrow> jsstring" where
  "unicode_escape c =
     [0x5C, 0x75, hex_digit (unat c div 4096), hex_digit (unat c div 256 mod 16),
      hex_digit (unat c div 16 mod 16), hex_digit (unat c mod 16)]"

definition escape_unit :: "16 word \<Rightarrow> jsstring" where
  "escape_unit c =
     (if c = 0x08 then [0x5C, 0x62]
      else if c = 0x09 then [0x5C, 0x74]
      else if c = 0x0A then [0x5C, 0x6E]
      else if c = 0x0C then [0x5C, 0x66]
      else if c = 0x0D then [0x5C, 0x72]
      else if c = 0x22 then [0x5C, 0x22]
      else if c = 0x5C then [0x5C, 0x5C]
      else if c < 0x20 then unicode_escape c
      else [c])"

fun quote_units :: "jsstring \<Rightarrow> jsstring" where
  "quote_units [] = []"
| "quote_units [c] =
     (if is_high_surrogate c \<or> is_low_surrogate c then unicode_escape c else escape_unit c)"
| "quote_units (c # d # ds) =
     (if is_high_surrogate c then
        (if is_low_surrogate d then c # d # quote_units ds
         else unicode_escape c @ quote_units (d # ds))
      else if is_low_surrogate c then unicode_escape c @ quote_units (d # ds)
      else escape_unit c @ quote_units (d # ds))"

definition QuoteJSONString :: "jsstring \<Rightarrow> jsstring" where
  "QuoteJSONString s = [0x22] @ quote_units s @ [0x22]"

text \<open>\<open>JSON.stringify({ query: searchQuery })\<close>.\<close>

definition stringify_query :: "jsstring \<Rightarrow> jsstring" where
  "stringify_query searchQuery =
     js ''{'' @ QuoteJSONString (js ''query'') @ js '':'' @ QuoteJSONString searchQuery @ js ''}''"

text \<open>The arguments of the \<open>fetch\<close> call of \<open>handleSearch\<close> (\<open>SearchPage.tsx\<close>).\<close>

definition search_request :: "jsstring \<Rightarrow> request" where
  "search_request searchQuery =
     \<lparr>req_url = js ''/search'',
      req_method = js ''POST'',
      req_headers = [(js ''Content-Type'', js ''application/json'')],
      req_body = stringify_query searchQuery\<rparr>"

section \<open>Reading the request body\<close>

text \<open>
  The reader of a JSON string of RFC 8259, the grammar \<open>JSON.stringify\<close> writes
  for: an escape is a backslash followed by a quotation mark, a backslash, a
  solidus or one of \<open>b f n r t\<close>, or by \<open>u\<close> and four hexadecimal digits; a
  quotation mark or a control character cannot stand unescaped.
  \<open>read_query_body\<close> reads the text \<open>{"query":"..."}\<close> and returns the string
  of its \<open>query\<close> member.
\<close>

definition hex_value :: "16 word \<Rightarrow> nat option" where
  "hex_value c =
     (if 0x30 \<le> c \<and> c \<le> 0x39 then Some (unat c - 48)
      else if 0x61 \<le> c \<and> c \<le> 0x66 then Some (unat c - 87)
      else if 0x41 \<le> c \<and> c \<le> 0x46 then Some (unat c - 55)
      else None)"

definition simple_escape :: "16 word \<Rightarrow> 16 word option" where
  "simple_escape e =
     (if e = 0x22 then Some 0x22
      else if e = 0x5C then Some 0x5C
      else if e = 0x2F then Some 0x2F
      else if e = 0x62 then Some 0x08
      else if e = 0x66 then Some 0x0C
      else if e = 0x6E then Some 0x0A
      else if e = 0x72 then Some 0x0D
      else if e = 0x74 then Some 0x09
      else None)"

definition hex4 :: "16 word \<Rightarrow> 16 word \<Rightarrow> 16 word \<Rightarrow> 16 word \<Rightarrow> 16 word option" where
  "hex4 h1 h2 h3 h4 =
     Option.bind (hex_value h1) (\<lambda>a.
     Option.bind (hex_value h2) (\<lambda>b.
     Option.bind (hex_value h3) (\<lambda>c.
     Option.bind (hex_value h4) (\<lambda>d.
       Some (of_nat (4096 * a + 256 * b + 16 * c + d))))))"

fun read_escape :: "jsstring \<Rightarrow> (16 word \<times> jsstring) option" where
  "read_escape [] = None"
| "read_escape (e # es) =
     (if e = 0x75 then
        (case es of
           h1 # h2 # h3 # h4 # rest \<Rightarrow> map_option (\<lambda>u. (u, rest)) (hex4 h1 h2 h3 h4)
         | _ \<Rightarrow> None)
      else map_option (\<lambda>u. (u, es)) (simple_escape e))"

function unquote_units :: "jsstring \<Rightarrow> jsstring option" where
  "unquote_units [] = Some []"
| "unquote_units (c # cs) =
     (if c = 0x5C then
        (case read_escape cs of
           None \<Rightarrow> None
         | Some (u, rest) \<Rightarrow> map_option ((#) u) (unquote_units rest))
      else if c = 0x22 \<or> c < 0x20 then None
      else map_option ((#) c) (unquote_units cs))"
  by pat_completeness auto
termination
  by (relation "measure length")
     (auto elim!: read_escape.elims split: if_splits list.splits option.splits
        simp: map_option_case)

definition read_query_body :: "jsstring \<Rightarrow> jsstring option" where
  \<open>read_query_body b =
     (let opening = js ''{"query":"''; closing = js ''"}'' in
      if length opening + length closing \<le> length b
         \<and> take (length opening) b = opening
         \<and> drop (length b - length closing) b = closing
      then unquote_units
             (take (length b - length opening - length closing) (drop (length opening) b))
      else None)\<close>

section \<open>SearchPage\<close>

text \<open>
  \<open>SearchPage.tsx\<close>. (The copy of \<open>SearchPage\<close> that follows \<open>SearchForm.tsx\<close> in
  the sources is an older revision: it has no \<open>adapterErrors\<close> and stores the whole
  body as \<open>results\<close>.)

  The five \<open>useState\<close> cells of \<open>SearchPage\<close>. \<open>results\<close> and \<open>adapterErrors\<close>
  hold what the handler stored, whatever the body carried: TypeScript's annotations
  are erased, nothing validates the parsed body.
\<close>

record page =
  query :: jsstring
  results :: jsval
  loading :: bool
  error :: "jsstring option"
  adapterErrors :: jsval

definition initial_page :: page where
  "initial_page =
     \<lparr>query = [], results = JNull, loading = False, error = None, adapterErrors = JArr []\<rparr>"

text \<open>What the handler does to the outside: the \<open>fetch\<close> call, and \<open>response.json()\<close>.\<close>

datatype effect = Fetch request | ReadJson

text \<open>
  How the \<open>try\<close> block ends: an awaited promise never settles, or a value is thrown,
  or the block runs to its end; each with the page state reached.
\<close>

datatype attempt = Pending page | Threw thrown page | Completed page

text \<open>The statements of \<open>handleSearch\<close> before the \<open>try\<close>.\<close>

definition handleSearch_start :: "jsstring \<Rightarrow> page \<Rightarrow> page" where
  "handleSearch_start searchQuery p =
     p\<lparr>query := searchQuery, loading := True, error := None, adapterErrors := JArr []\<rparr>"

text \<open>The \<open>try\<close> block, from the outcome of the \<open>fetch\<close> promise on.\<close>

definition handleSearch_try :: "fetch_outcome \<Rightarrow> page \<Rightarrow> attempt \<times> effect list" where
  "handleSearch_try outcome p =
     (case outcome of
        FetchPending \<Rightarrow> (Pending p, [])
      | FetchRejected t \<Rightarrow> (Threw t p, [])
      | FetchResolved r \<Rightarrow>
          if \<not> ok r then
            (Threw (ErrorObj (js ''Search failed with status '' @ number_to_string (status r))) p, [])
          else
            (case json_body r of
               JsonPending \<Rightarrow> (Pending p, [ReadJson])
             | JsonRejected t \<Rightarrow> (Threw t p, [ReadJson])
             | JsonResolved d \<Rightarrow>
                 (case member_of d (js ''results'') of
                    Inl t \<Rightarrow> (Threw t p, [ReadJson])
                  | Inr rs \<Rightarrow>
                      (let p1 = p\<lparr>results := or_else rs (JArr [])\<rparr> in
                       case member_of d (js ''errors'') of
                         Inl t \<Rightarrow> (Threw t p1, [ReadJson])
                       | Inr es \<Rightarrow>
                           (Completed (p1\<lparr>adapterErrors := or_else es (JArr [])\<rparr>),
                            [ReadJson])))))"

text \<open>The \<open>catch\<close> and the \<open>finally\<close>.\<close>

definition handleSearch_catch :: "thrown \<Rightarrow> page \<Rightarrow> page" where
  "handleSearch_catch err p =
     p\<lparr>results := JNull,
       error := Some (case err of ErrorObj m \<Rightarrow> m
                      | NonError \<Rightarrow> js ''An unexpected error occurred''),
       adapterErrors := JArr []\<rparr>"

definition handleSearch_finally :: "page \<Rightarrow> page" where
  "handleSearch_finally p = p\<lparr>loading := False\<rparr>"

definition handleSearch_settle :: "attempt \<Rightarrow> page" where
  "handleSearch_settle a =
     (case a of
        Pending p \<Rightarrow> p
      | Threw err p \<Rightarrow> handleSearch_finally (handleSearch_catch err p)
      | Completed p \<Rightarrow> handleSearch_finally p)"

text \<open>
  \<open>handleSearch\<close>: the page state once the handler has run as far as it gets, and its
  effects in order. The network is the function that answers the \<open>fetch\<close> call.
\<close>

definition handleSearch :: "(request \<Rightarrow> fetch_outcome) \<Rightarrow> jsstring \<Rightarrow> page \<Rightarrow> page \<times> effect list" where
  "handleSearch network searchQuery p =
     (let req = search_request searchQuery;
          (a, effs) = handleSearch_try (network req) (handleSearch_start searchQuery p)
      in (handleSearch_settle a, Fetch req # effs))"

text \<open>
  Submitting the form (\<open>SearchForm\<close>'s \<open>onSubmit\<close>, with \<open>onSearch = handleSearch\<close>
  as \<open>SearchPage\<close> passes it).
\<close>

definition submit :: "(request \<Rightarrow> fetch_outcome) \<Rightarrow> jsstring \<Rightarrow> page \<Rightarrow> page \<times> effect list" where
  "submit network inputValue p =
     (case handleSubmit inputValue of
        None \<Rightarrow> (p, [])
      | Some q \<Rightarrow> handleSearch network q p)"

text \<open>The \<open>fetch\<close> calls among a handler's effects, in order.\<close>

fun fetches :: "effect list \<Rightarrow> request list" where
  "fetches [] = []"
| "fetches (Fetch r # es) = r # fetches es"
| "fetches (ReadJson # es) = fetches es"

section \<open>ResultsList\<close>

text \<open>The wire shapes of \<open>types.ts\<close>: \<open>SearchResult\<close> and the entries of \<open>errors\<close>.\<close>

record SearchResult =
  sku :: jsstring
  name :: jsstring
  retailer :: jsstring
  price :: rat
  currency :: jsstring
  url :: "jsstring option"

record AdapterError =
  adapter :: jsstring
  error_text :: jsstring

text \<open>
  Reading a stored value at the type the component declares for it
  (\<open>ResultsListProps\<close>): \<open>None\<close> when the value is not of that type. A price is
  read as a finite number. Members an object has beyond the declared ones are
  ignored.
\<close>

definition as_string :: "jsval \<Rightarrow> jsstring option" where
  "as_string v = (case v of JStr s \<Rightarrow> Some s | _ \<Rightarrow> None)"

definition as_number :: "jsval \<Rightarrow> rat option" where
  "as_number v = (case v of JNum (NumFin r) \<Rightarrow> Some r | _ \<Rightarrow> None)"

definition as_optional_string :: "jsval \<Rightarrow> jsstring option option" where
  "as_optional_string v =
     (case v of JUndefined \<Rightarrow> Some None | JNull \<Rightarrow> Some None | JStr s \<Rightarrow> Some (Some s)
      | _ \<Rightarrow> None)"

definition as_SearchResult :: "jsval \<Rightarrow> SearchResult option" where
  "as_SearchResult v =
     (case v of
        JObj kvs \<Rightarrow>
          Option.bind (as_string (own_member kvs (js ''sku''))) (\<lambda>s.
          Option.bind (as_string (own_member kvs (js ''name''))) (\<lambda>n.
          Option.bind (as_string (own_member kvs (js ''retailer''))) (\<lambda>r.
          Option.bind (as_number (own_member kvs (js ''price''))) (\<lambda>p.
          Option.bind (as_string (own_member kvs (js ''currency''))) (\<lambda>c.
          Option.bind (as_optional_string (own_member kvs (js ''url''))) (\<lambda>u.
            Some \<lparr>sku = s, name = n, retailer = r, price = p, currency = c, url = u\<rparr>))))))
      | _ \<Rightarrow> None)"

definition as_AdapterError :: "jsval \<Rightarrow> AdapterError option" where
  "as_AdapterError v =
     (case v of
        JObj kvs \<Rightarrow>
          Option.bind (as_string (own_member kvs (js ''adapter''))) (\<lambda>a.
          Option.bind (as_string (own_member kvs (js ''error''))) (\<lambda>e.
            Some \<lparr>adapter = a, error_text = e\<rparr>))
      | _ \<Rightarrow> None)"

definition as_array :: "(jsval \<Rightarrow> 'a option) \<Rightarrow> jsval \<Rightarrow> 'a list option" where
  "as_array f v = (case v of JArr xs \<Rightarrow> those (map f xs) | _ \<Rightarrow> None)"

text \<open>\<open>results: SearchResult[] | null\<close>.\<close>

definition as_results :: "jsval \<Rightarrow> SearchResult list option option" where
  "as_results v =
     (case v of JNull \<Rightarrow> Some None | _ \<Rightarrow> map_option Some (as_array as_SearchResult v))"

text \<open>
  What \<open>ResultsList\<close> returns, by branch, with the data each branch displays. One
  \<open>list_item\<close> per result: its React key, the result (name, retailer, currency and
  price, sku), and the link when \<open>result.url\<close> is truthy. The adapter-error notice
  lists one entry per adapter error. The markup itself, and the digits
  \<open>toFixed(2)\<close> prints, are not part of the model.
\<close>

record list_item =
  item_key :: jsstring
  item_result :: SearchResult
  item_link :: "jsstring option"

datatype message = NoResultsFor jsstring | SearchPrompt

datatype view =
    VLoading
  | VAlert jsstring
  | VEmpty "AdapterError list option" message
  | VResults "AdapterError list option" "list_item list"

definition render_item :: "SearchResult \<Rightarrow> list_item" where
  "render_item result =
     \<lparr>item_key = retailer result @ js ''-'' @ sku result,
      item_result = result,
      item_link = (case url result of None \<Rightarrow> None
                   | Some u \<Rightarrow> if u \<noteq> [] then Some u else None)\<rparr>"

text \<open>
  \<open>ResultsList\<close> as \<open>SearchPage.tsx\<close> calls it, with the \<open>adapterErrors\<close> prop (the
  source that follows \<open>types.ts\<close>; the two copies without that prop are older
  revisions). The first two branches return before \<open>results\<close> and
  \<open>adapterErrors\<close> are looked at; after them the result is \<open>None\<close> when one of
  the two is not of its declared type.
\<close>

definition ResultsList ::
  "jsstring \<Rightarrow> jsval \<Rightarrow> bool \<Rightarrow> jsstring option \<Rightarrow> jsval \<Rightarrow> view option" where
  "ResultsList q rs isLoading err aes =
     (if isLoading then Some VLoading
      else case (case err of Some e \<Rightarrow> if e \<noteq> [] then Some e else None | None \<Rightarrow> None) of
        Some e \<Rightarrow> Some (VAlert e)
      | None \<Rightarrow>
         (case as_array as_AdapterError aes of
            None \<Rightarrow> None
          | Some es \<Rightarrow>
             (let adapterErrorNotice = (if length es > 0 then Some es else None) in
              case as_results rs of
                None \<Rightarrow> None
              | Some None \<Rightarrow>
                  Some (VEmpty adapterErrorNotice
                         (if q \<noteq> [] then NoResultsFor q else SearchPrompt))
              | Some (Some xs) \<Rightarrow>
                  if length xs = 0 then
                    Some (VEmpty adapterErrorNotice
                           (if q \<noteq> [] then NoResultsFor q else SearchPrompt))
                  else Some (VResults adapterErrorNotice (map render_item xs)))))"

text \<open>\<open>SearchPage\<close> passes its state to \<open>ResultsList\<close>.\<close>

definition render :: "page \<Rightarrow> view option" where
  "render p = ResultsList (query p) (results p) (loading p) (error p) (adapterErrors p)"

text \<open>Whether a view shows search results, or adapter errors.\<close>

fun shows_results :: "view \<Rightarrow> bool" where
  "shows_results (VResults n xs) = True"
| "shows_results v = False"

fun shows_adapter_errors :: "view \<Rightarrow> bool" where
  "shows_adapter_errors (VEmpty (Some es) m) = True"
| "shows_adapter_errors (VResults (Some es) xs) = True"
| "shows_adapter_errors v = False"

text \<open>The JSON values of the wire shapes.\<close>

definition SearchResult_json :: "SearchResult \<Rightarrow> jsval" where
  "SearchResult_json r =
     JObj [(js ''sku'', JStr (sku r)), (js ''name'', JStr (name r)),
           (js ''retailer'', JStr (retailer r)), (js ''price'', JNum (NumFin (price r))),
           (js ''currency'', JStr (currency r)),
           (js ''url'', (case url r of None \<Rightarrow> JNull | Some u \<Rightarrow> JStr u))]"

definition AdapterError_json :: "AdapterError \<Rightarrow> jsval" where
  "AdapterError_json e =
     JObj [(js ''adapter'', JStr (adapter e)), (js ''error'', JStr (error_text e))]"

definition SearchResponse_json :: "SearchResult list \<Rightarrow> AdapterError list \<Rightarrow> jsval" where
  "SearchResponse_json rs es =
     JObj [(js ''results'', JArr (map SearchResult_json rs)),
           (js ''errors'', JArr (map AdapterError_json es))]"

section \<open>The aggregation service\<close>

text \<open>
  The backend behind \<open>POST /search\<close> (adapters, Orchestrator, Aggregator, Response
  Assembler) is not among the sources, which hold the frontend only. Every
  definition of this section is modelled from the specification (sections 3, 4, 6
  and 7).
\<close>

text \<open>
  Modelled from the spec: the backend's \<open>PriceQuote\<close> (section 3), whose code is
  missing; it has the wire shape of the frontend's \<open>SearchResult\<close>.
\<close>

type_synonym PriceQuote = SearchResult

text \<open>
  Modelled from the spec: what an Adapter's \<open>Search\<close> does (4.1), the adapters being
  missing: it returns zero or more quotes, or fails with a cause, or is still
  running at its deadline.
\<close>

datatype adapter_run = Returns "PriceQuote list" | Fails jsstring | ExceedsDeadline

text \<open>
  Modelled from the spec: an entry of the adapter registry (4.1, 6), which is
  missing: the adapter's \<open>Name()\<close> and its \<open>Search\<close>.
\<close>

record adapter_entry =
  adapter_name :: jsstring
  adapter_search :: "jsstring \<Rightarrow> adapter_run"

text \<open>
  Modelled from the spec: the terminal state of one adapter as the missing
  Orchestrator records it (4.2): quotes, or a failure cause.
\<close>

datatype outcome = Success "PriceQuote list" | Failed jsstring

text \<open>
  Modelled from the spec: one unit of work of the missing Orchestrator (4.2). A
  per-adapter timeout is reported as a failure with the cause \<open>timeout\<close>.
\<close>

definition run_adapter :: "adapter_entry \<Rightarrow> jsstring \<Rightarrow> outcome" where
  "run_adapter a q =
     (case adapter_search a q of
        Returns qs \<Rightarrow> Success qs
      | Fails cause \<Rightarrow> Failed cause
      | ExceedsDeadline \<Rightarrow> Failed (js ''timeout''))"

text \<open>
  Modelled from the spec: the missing Orchestrator (4.2). It waits for every adapter
  and yields the mapping from adapter identifier to outcome, kept here in
  registration order.
\<close>

definition orchestrate :: "adapter_entry list \<Rightarrow> jsstring \<Rightarrow> (jsstring \<times> outcome) list" where
  "orchestrate registry q = map (\<lambda>a. (adapter_name a, run_adapter a q)) registry"

text \<open>
  Modelled from the spec: the dedup key of the missing Aggregator (4.3),
  \<open>(retailer, sku)\<close>.
\<close>

definition dedup_key :: "PriceQuote \<Rightarrow> jsstring \<times> jsstring" where
  "dedup_key q = (retailer q, sku q)"

text \<open>
  Modelled from the spec: one step of the missing Aggregator's dedup (4.3). Of two
  quotes of one key the lowest price is retained; on an exact tie the one
  encountered first stays.
\<close>

fun retain_lowest :: "PriceQuote \<Rightarrow> PriceQuote list \<Rightarrow> PriceQuote list" where
  "retain_lowest q [] = [q]"
| "retain_lowest q (r # rs) =
     (if dedup_key r = dedup_key q then (if price q < price r then q else r) # rs
      else r # retain_lowest q rs)"

text \<open>
  Modelled from the spec: the missing Aggregator's dedup (4.3) over the quotes in
  adapter-then-emission order.
\<close>

definition dedup :: "PriceQuote list \<Rightarrow> PriceQuote list" where
  "dedup qs = foldl (\<lambda>kept q. retain_lowest q kept) [] qs"

text \<open>
  Modelled from the spec: the output ordering of the missing Aggregator (4.3):
  ascending by price, ties broken by retailer, then sku. Strings are compared
  lexicographically, code unit by code unit.
\<close>

definition ordering_key :: "PriceQuote \<Rightarrow> rat \<times> jsstring \<times> jsstring" where
  "ordering_key q = (price q, retailer q, sku q)"

text \<open>
  Modelled from the spec: the missing Aggregator (4.3), on the successful adapters'
  quote sequences in registration order.
\<close>

definition aggregate :: "PriceQuote list list \<Rightarrow> PriceQuote list" where
  "aggregate qss = sort_key ordering_key (dedup (concat qss))"

text \<open>
  Modelled from the spec: the input of the missing Aggregator (4.3), the quote
  sequences of the adapters that succeeded.
\<close>

fun successes :: "(jsstring \<times> outcome) list \<Rightarrow> PriceQuote list list" where
  "successes [] = []"
| "successes ((n, Success qs) # os) = qs # successes os"
| "successes ((n, Failed cause) # os) = successes os"

text \<open>
  Modelled from the spec: the \<open>errors\<close> of the missing Response Assembler (4.4), each
  failed adapter projected to \<open>{adapter, error}\<close>, in registration order.
\<close>

fun failures :: "(jsstring \<times> outcome) list \<Rightarrow> AdapterError list" where
  "failures [] = []"
| "failures ((n, Success qs) # os) = failures os"
| "failures ((n, Failed cause) # os) = \<lparr>adapter = n, error_text = cause\<rparr> # failures os"

text \<open>
  Modelled from the spec: the backend's \<open>SearchResponse\<close> (section 3), whose code is
  missing.
\<close>

record SearchResponse =
  response_results :: "PriceQuote list"
  response_errors :: "AdapterError list"

text \<open>Modelled from the spec: the missing Response Assembler (4.4).\<close>

definition assemble :: "(jsstring \<times> outcome) list \<Rightarrow> SearchResponse" where
  "assemble os = \<lparr>response_results = aggregate (successes os), response_errors = failures os\<rparr>"

text \<open>
  Modelled from the spec: what the missing \<open>POST /search\<close> endpoint answers
  (section 6): a 4xx validation error, or success with a \<open>SearchResponse\<close>.
\<close>

datatype reply = ValidationError | Success200 SearchResponse

text \<open>
  Modelled from the spec: the missing \<open>POST /search\<close> endpoint (sections 6 and 7). A
  query that is empty after trimming is rejected before dispatch; every other
  request is answered with success, whatever the adapters did.
\<close>

definition post_search :: "adapter_entry list \<Rightarrow> jsstring \<Rightarrow> reply" where
  "post_search registry q =
     (if trim q = [] then ValidationError else Success200 (assemble (orchestrate registry q)))"

text \<open>
  Modelled from the spec: the success response of the missing endpoint as the
  browser receives it (section 6): HTTP 200 with the body
  \<open>{"results": [...], "errors": [...]}\<close>.
\<close>

definition http_success :: "SearchResponse \<Rightarrow> response" where
  "http_success r =
     \<lparr>status = 200,
      json_body = JsonResolved (SearchResponse_json (response_results r) (response_errors r))\<rparr>"

section \<open>Example data\<close>

text \<open>
  The result and the adapter error of the tests (\<open>SearchPage.test.tsx\<close>), and a page
  that shows both from an earlier search.
\<close>

definition example_result :: SearchResult where
  "example_result =
     \<lparr>sku = js ''sku-1'', name = js ''Noise Cancelling Headphones'', retailer = js ''Retailer A'',
      price = 1999, currency = js ''HKD'', url = Some (js ''https://example.com/product'')\<rparr>"

definition example_error :: AdapterError where
  "example_error = \<lparr>adapter = js ''Price.com.hk'', error_text = js ''HTTP 403''\<rparr>"

definition earlier_page :: page where
  "earlier_page =
     \<lparr>query = js ''headphones'', results = JArr [SearchResult_json example_result],
      loading = False, error = None, adapterErrors = JArr [AdapterError_json example_error]\<rparr>"

text \<open>A network that answers every request with the same response.\<close>

definition answers :: "response \<Rightarrow> request \<Rightarrow> fetch_outcome" where
  "answers r req = FetchResolved r"

text \<open>
  A response body as a server may send it: the members in another order than
  \<open>types.ts\<close> lists them, and one member more.
\<close>

definition example_body :: jsval where
  "example_body =
     JObj [(js ''errors'', JArr []),
           (js ''results'', JArr [JObj [(js ''url'', JStr (js ''https://example.com/product'')),
              (js ''sku'', JStr (js ''sku-1'')),
              (js ''name'', JStr (js ''Noise Cancelling Headphones'')),
              (js ''retailer'', JStr (js ''Retailer A'')),
              (js ''price'', JNum (NumFin 1999)),
              (js ''currency'', JStr (js ''HKD'')),
              (js ''inStock'', JBool True)]])]"

text \<open>
  Quotes and adapters for the scenarios of the specification (section 8): one adapter
  reporting the same sku at 100, at 90 and at 90 again, a second retailer at 90; an
  adapter that returns a quote, one that runs past its deadline and one that fails
  with \<open>HTTP 403\<close>.
\<close>

definition quote_of :: "string \<Rightarrow> string \<Rightarrow> rat \<Rightarrow> string \<Rightarrow> PriceQuote" where
  "quote_of r s p n =
     \<lparr>sku = js s, name = js n, retailer = js r, price = p, currency = js ''HKD'', url = None\<rparr>"

definition example_emissions :: "PriceQuote list list" where
  "example_emissions =
     [[quote_of ''A'' ''1'' 100 ''first'', quote_of ''A'' ''1'' 90 ''second'',
       quote_of ''A'' ''1'' 90 ''third''],
      [quote_of ''B'' ''7'' 90 ''other'']]"

definition broadway :: adapter_entry where
  "broadway = \<lparr>adapter_name = js ''Broadway'',
     adapter_search = (\<lambda>q. Returns [quote_of ''Broadway'' ''1'' 100 ''tv''])\<rparr>"

definition fortress :: adapter_entry where
  "fortress = \<lparr>adapter_name = js ''Fortress'', adapter_search = (\<lambda>q. ExceedsDeadline)\<rparr>"

definition price_com_hk :: adapter_entry where
  "price_com_hk = \<lparr>adapter_name = js ''Price.com.hk'',
     adapter_search = (\<lambda>q. Fails (js ''HTTP 403''))\<rparr>"

section \<open>Strings\<close>

lemma js_Nil: "js [] = []"
  by (simp add: js_def)

subsection \<open>trim\<close>

lemma dropWhile_all_iff: "(\<forall>x \<in> set (dropWhile P xs). P x) \<longleftrightarrow> (\<forall>x \<in> set xs. P x)"
proof
  assume a: "\<forall>x \<in> set (dropWhile P xs). P x"
  have "dropWhile P xs = []"
  proof (rule ccontr)
    assume n: "dropWhile P xs \<noteq> []"
    then have "\<not> P (hd (dropWhile P xs))" by (rule hd_dropWhile)
    moreover have "hd (dropWhile P xs) \<in> set (dropWhile P xs)" using n by simp
    ultimately show False using a by blast
  qed
  then show "\<forall>x \<in> set xs. P x" by (simp add: dropWhile_eq_Nil_conv)
next
  assume "\<forall>x \<in> set xs. P x"
  then show "\<forall>x \<in> set (dropWhile P xs). P x" by (auto dest: set_dropWhileD)
qed

text \<open>The trimmed string is empty exactly when every code unit is white space.\<close>

lemma trim_empty_iff: "trim s = [] \<longleftrightarrow> (\<forall>c \<in> set s. is_whitespace c)"
  by (simp add: trim_def dropWhile_eq_Nil_conv dropWhile_all_iff)

lemma dropWhile_keeps_last:
  "\<not> P y \<Longrightarrow> \<exists>ws. dropWhile P (ws0 @ [y]) = ws @ [y]"
  by (induction ws0) auto

lemma rev_dropWhile_rev_head:
  assumes "xs \<noteq> []" "\<not> P (hd xs)"
  shows "dropWhile P (rev (dropWhile P (rev xs))) = rev (dropWhile P (rev xs))"
proof -
  from assms obtain y ys where xs: "xs = y # ys" and ny: "\<not> P y" by (cases xs) auto
  obtain ws where "dropWhile P (rev ys @ [y]) = ws @ [y]"
    using dropWhile_keeps_last[of P y "rev ys"] ny by blast
  then show ?thesis using ny by (simp add: xs)
qed

text \<open>A trimmed string neither starts nor ends with white space, so trimming it again changes nothing.\<close>

lemma trim_no_leading_whitespace: "dropWhile is_whitespace (trim s) = trim s"
proof (cases "dropWhile is_whitespace s = []")
  case True
  then have "trim s = []" by (simp only: trim_def dropWhile.simps rev.simps)
  then show ?thesis by simp
next
  case False
  then have "\<not> is_whitespace (hd (dropWhile is_whitespace s))" by (rule hd_dropWhile)
  with False show ?thesis unfolding trim_def by (rule rev_dropWhile_rev_head)
qed

lemma trim_no_trailing_whitespace: "dropWhile is_whitespace (rev (trim s)) = rev (trim s)"
  by (simp add: trim_def)

lemma trim_idem: "trim (trim s) = trim s"
proof -
  have "trim (trim s) = rev (dropWhile is_whitespace (rev (trim s)))"
    unfolding trim_def[of "trim s"] by (simp only: trim_no_leading_whitespace)
  then show ?thesis by (simp add: trim_no_trailing_whitespace)
qed

section \<open>Submitting the form\<close>

lemma handleSearch_try_effects:
  "snd (handleSearch_try outcome p) = [] \<or> snd (handleSearch_try outcome p) = [ReadJson]"
  by (simp add: handleSearch_try_def Let_def
      split: fetch_outcome.split json_outcome.split sum.split)

lemma fetches_handleSearch:
  "fetches (snd (handleSearch network q p)) = [search_request q]"
  using handleSearch_try_effects[of "network (search_request q)" "handleSearch_start q p"]
  by (auto simp: handleSearch_def Let_def split: prod.split)

text \<open>
  C4. When the input is empty after trimming, submitting the form calls neither
  \<open>onSearch\<close> nor \<open>fetch\<close> and leaves the page as it was. Otherwise \<open>onSearch\<close> is
  called with the trimmed input, and the one \<open>fetch\<close> of the submission carries the
  request built from the trimmed input.
\<close>

theorem submit_dispatches_trimmed_query:
  "(trim inputValue = [] \<longrightarrow>
      handleSubmit inputValue = None \<and> submit network inputValue p = (p, []))
   \<and> (trim inputValue \<noteq> [] \<longrightarrow>
      handleSubmit inputValue = Some (trim inputValue)
      \<and> submit network inputValue p = handleSearch network (trim inputValue) p
      \<and> fetches (snd (submit network inputValue p)) = [search_request (trim inputValue)])"
  by (simp add: handleSubmit_def submit_def fetches_handleSearch)

theorem submit_dispatches_trimmed_query_witness:
  "trim (js ''   '') = []
   \<and> handleSubmit (js ''   '') = None
   \<and> submit (\<lambda>r. FetchPending) (js ''   '') initial_page = (initial_page, [])
   \<and> trim (js '' tv '') = js ''tv''
   \<and> handleSubmit (js '' tv '') = Some (js ''tv'')
   \<and> fetches (snd (submit (\<lambda>r. FetchPending) (js '' tv '') initial_page))
       = [search_request (js ''tv'')]"
proof -
  have blank: "trim (js ''   '') = []"
    by (simp add: trim_def js_def is_whitespace_def)
  have tv: "trim (js '' tv '') = js ''tv''"
    by (simp add: trim_def js_def is_whitespace_def)
  have "js ''tv'' \<noteq> []"
    by (simp add: js_def)
  then have tv_ne: "trim (js '' tv '') \<noteq> []"
    unfolding tv .
  have a: "handleSubmit (js ''   '') = None
      \<and> submit (\<lambda>r. FetchPending) (js ''   '') initial_page = (initial_page, [])"
    using submit_dispatches_trimmed_query[of "js ''   ''" "\<lambda>r. FetchPending" initial_page]
      blank by blast
  have b: "handleSubmit (js '' tv '') = Some (trim (js '' tv ''))
      \<and> fetches (snd (submit (\<lambda>r. FetchPending) (js '' tv '') initial_page))
          = [search_request (trim (js '' tv ''))]"
    using submit_dispatches_trimmed_query[of "js '' tv ''" "\<lambda>r. FetchPending" initial_page]
      tv_ne by blast
  show ?thesis
    using a b[unfolded tv] blank tv by blast
qed

section \<open>The outcomes of a search\<close>

text \<open>
  While the \<open>fetch\<close> promise is pending the page is loading, and \<open>ResultsList\<close>
  returns the loading status.
\<close>

lemma handleSearch_pending:
  assumes "network (search_request q) = FetchPending"
  shows "handleSearch network q p =
     (p\<lparr>query := q, loading := True, error := None, adapterErrors := JArr []\<rparr>,
      [Fetch (search_request q)])"
    and "render (fst (handleSearch network q p)) = Some VLoading"
  using assms
  by (simp_all add: handleSearch_def handleSearch_try_def handleSearch_settle_def
      handleSearch_start_def render_def ResultsList_def)

lemma handleSearch_rejected:
  assumes "network (search_request q) = FetchRejected t"
  shows "handleSearch network q p =
     (\<lparr>query = q, results = JNull, loading = False,
        error = Some (case t of ErrorObj m \<Rightarrow> m | NonError \<Rightarrow> js ''An unexpected error occurred''),
        adapterErrors = JArr []\<rparr>, [Fetch (search_request q)])"
  using assms
  by (simp add: handleSearch_def handleSearch_try_def handleSearch_settle_def
      handleSearch_catch_def handleSearch_finally_def handleSearch_start_def Let_def)

lemma handleSearch_not_ok:
  assumes "network (search_request q) = FetchResolved r" and "\<not> ok r"
  shows "handleSearch network q p =
     (\<lparr>query = q, results = JNull, loading = False,
        error = Some (js ''Search failed with status '' @ number_to_string (status r)),
        adapterErrors = JArr []\<rparr>, [Fetch (search_request q)])"
  using assms
  by (simp add: handleSearch_def handleSearch_try_def handleSearch_settle_def
      handleSearch_catch_def handleSearch_finally_def handleSearch_start_def Let_def)

lemma handleSearch_parsed:
  assumes "network (search_request q) = FetchResolved r" and "ok r"
    and "json_body r = JsonResolved d"
    and "member_of d (js ''results'') = Inr v" and "member_of d (js ''errors'') = Inr w"
  shows "handleSearch network q p =
     (\<lparr>query = q, results = or_else v (JArr []), loading = False, error = None,
        adapterErrors = or_else w (JArr [])\<rparr>,
      [Fetch (search_request q), ReadJson])"
  using assms
  by (simp add: handleSearch_def handleSearch_try_def handleSearch_settle_def
      handleSearch_catch_def handleSearch_finally_def handleSearch_start_def Let_def)

text \<open>
  A body that is itself \<open>null\<close> has no members to read: \<open>data.results\<close> throws,
  and the \<open>catch\<close> leaves the page with the TypeError's message.
\<close>

lemma handleSearch_null_body:
  assumes "network (search_request q) = FetchResolved r" and "ok r"
    and "json_body r = JsonResolved JNull"
  shows "handleSearch network q p =
     (\<lparr>query = q, results = JNull, loading = False,
        error = Some (type_error_message JNull (js ''results'')), adapterErrors = JArr []\<rparr>,
      [Fetch (search_request q), ReadJson])"
  using assms
  by (simp add: handleSearch_def handleSearch_try_def handleSearch_settle_def
      handleSearch_catch_def handleSearch_finally_def handleSearch_start_def Let_def)

lemma status_message_nonempty: "js ''Search failed with status '' \<noteq> []"
  by (simp add: js_def)

text \<open>
  Whatever the outcome, a page left by \<open>handleSearch\<close> that holds an error holds
  neither results nor adapter errors.
\<close>

lemma handleSearch_invariant:
  "error (fst (handleSearch network q p)) \<noteq> None \<longrightarrow>
     results (fst (handleSearch network q p)) = JNull \<and> adapterErrors (fst (handleSearch network q p)) = JArr []"
  by (simp add: handleSearch_def handleSearch_try_def handleSearch_settle_def
      handleSearch_catch_def handleSearch_finally_def handleSearch_start_def Let_def
      split: fetch_outcome.split json_outcome.split sum.split)

text \<open>
  C7. A response whose status is outside 200..299: \<open>response.json()\<close> is not called
  (the \<open>fetch\<close> is the handler's only effect), the page holds one error message,
  which depends on the status alone, no results and no adapter errors, and
  \<open>ResultsList\<close> returns the alert with that message.
\<close>

theorem non_2xx_is_generic_failure:
  assumes "network (search_request q) = FetchResolved r"
    and "status r < 200 \<or> 299 < status r"
  shows "snd (handleSearch network q p) = [Fetch (search_request q)]
    \<and> fst (handleSearch network q p) =
        \<lparr>query = q, results = JNull, loading = False,
         error = Some (js ''Search failed with status '' @ number_to_string (status r)),
         adapterErrors = JArr []\<rparr>
    \<and> render (fst (handleSearch network q p)) =
        Some (VAlert (js ''Search failed with status '' @ number_to_string (status r)))"
proof -
  have "\<not> ok r" using assms(2) by (auto simp: ok_def)
  then have h: "handleSearch network q p =
     (\<lparr>query = q, results = JNull, loading = False,
        error = Some (js ''Search failed with status '' @ number_to_string (status r)),
        adapterErrors = JArr []\<rparr>, [Fetch (search_request q)])"
    using assms(1) by (rule handleSearch_not_ok[rotated])
  show ?thesis
    by (simp add: h render_def ResultsList_def status_message_nonempty)
qed

theorem non_2xx_is_generic_failure_witness:
  "snd (handleSearch (answers \<lparr>status = 500, json_body = JsonResolved JNull\<rparr>)
          (js ''webcam'') initial_page) = [Fetch (search_request (js ''webcam''))]
   \<and> render (fst (handleSearch (answers \<lparr>status = 500, json_body = JsonResolved JNull\<rparr>)
          (js ''webcam'') initial_page)) = Some (VAlert (js ''Search failed with status 500''))"
proof -
  have e: "js ''Search failed with status ''
        @ number_to_string (status \<lparr>status = 500, json_body = JsonResolved JNull\<rparr>)
      = js ''Search failed with status 500''"
    by (simp add: number_to_string.simps js_def)
  have "(answers \<lparr>status = 500, json_body = JsonResolved JNull\<rparr>)
          (search_request (js ''webcam''))
        = FetchResolved \<lparr>status = 500, json_body = JsonResolved JNull\<rparr>"
    by (simp add: answers_def)
  moreover have "status \<lparr>status = 500, json_body = JsonResolved JNull\<rparr> < 200
      \<or> 299 < status \<lparr>status = 500, json_body = JsonResolved JNull\<rparr>"
    by simp
  ultimately show ?thesis
    using non_2xx_is_generic_failure[of "answers \<lparr>status = 500, json_body = JsonResolved JNull\<rparr>"
        "js ''webcam''" "\<lparr>status = 500, json_body = JsonResolved JNull\<rparr>" initial_page]
    unfolding e by blast
qed

text \<open>
  Whatever the page holds, an error with a non-empty message is shown alone: the
  alert branch returns before results and adapter errors are looked at.
\<close>

lemma render_error_alone:
  "error p = Some e \<Longrightarrow> e \<noteq> [] \<Longrightarrow>
     render p = Some (if loading p then VLoading else VAlert e)"
  by (simp add: render_def ResultsList_def)

lemma render_failed:
  "\<exists>v. render \<lparr>query = q, results = JNull, loading = False, error = e, adapterErrors = JArr []\<rparr> = Some v
       \<and> \<not> shows_results v \<and> \<not> shows_adapter_errors v"
  by (auto simp: render_def ResultsList_def as_array_def as_results_def split: option.split)

text \<open>
  C9. When the \<open>fetch\<close> rejects or the response status is outside 200..299, then,
  whatever the page held before, it is left with an error, \<open>results = null\<close>,
  no adapter errors and \<open>loading = false\<close>, and what \<open>ResultsList\<close> returns for
  it shows neither results nor adapter errors.
\<close>

theorem failed_search_discards_earlier_results:
  assumes "network (search_request q) = FetchRejected t
     \<or> (\<exists>r. network (search_request q) = FetchResolved r \<and> (status r < 200 \<or> 299 < status r))"
  shows "error (fst (handleSearch network q p)) \<noteq> None
    \<and> results (fst (handleSearch network q p)) = JNull
    \<and> adapterErrors (fst (handleSearch network q p)) = JArr []
    \<and> \<not> loading (fst (handleSearch network q p))
    \<and> (\<exists>v. render (fst (handleSearch network q p)) = Some v
           \<and> \<not> shows_results v \<and> \<not> shows_adapter_errors v)"
proof -
  from assms obtain e where
    "fst (handleSearch network q p) =
       \<lparr>query = q, results = JNull, loading = False, error = Some e, adapterErrors = JArr []\<rparr>"
  proof
    assume a: "network (search_request q) = FetchRejected t"
    assume k: "\<And>e. fst (handleSearch network q p) =
       \<lparr>query = q, results = JNull, loading = False, error = Some e, adapterErrors = JArr []\<rparr> \<Longrightarrow> thesis"
    show thesis by (rule k) (simp add: handleSearch_rejected[of network q t p, OF a])
  next
    assume "\<exists>r. network (search_request q) = FetchResolved r \<and> (status r < 200 \<or> 299 < status r)"
    then obtain r where a: "network (search_request q) = FetchResolved r"
      and b: "status r < 200 \<or> 299 < status r" by blast
    from b have nok: "\<not> ok r" by (auto simp: ok_def)
    assume k: "\<And>e. fst (handleSearch network q p) =
       \<lparr>query = q, results = JNull, loading = False, error = Some e, adapterErrors = JArr []\<rparr> \<Longrightarrow> thesis"
    show thesis by (rule k) (simp add: handleSearch_not_ok[of network q r p, OF a nok])
  qed
  then show ?thesis using render_failed[of q "Some e"] by simp
qed

theorem failed_search_discards_earlier_results_witness:
  "error (fst (handleSearch (\<lambda>req. FetchRejected NonError) (js ''webcam'') earlier_page)) \<noteq> None
    \<and> results (fst (handleSearch (\<lambda>req. FetchRejected NonError) (js ''webcam'') earlier_page)) = JNull
    \<and> adapterErrors (fst (handleSearch (\<lambda>req. FetchRejected NonError) (js ''webcam'') earlier_page))
        = JArr []
    \<and> results (fst (handleSearch (answers \<lparr>status = 404, json_body = JsonPending\<rparr>)
         (js ''webcam'') earlier_page)) = JNull
    \<and> adapterErrors (fst (handleSearch (answers \<lparr>status = 404, json_body = JsonPending\<rparr>)
         (js ''webcam'') earlier_page)) = JArr []"
proof -
  have a: "(\<lambda>req. FetchRejected NonError) (search_request (js ''webcam'')) = FetchRejected NonError
     \<or> (\<exists>r. (\<lambda>req. FetchRejected NonError) (search_request (js ''webcam'')) = FetchResolved r
           \<and> (status r < 200 \<or> 299 < status r))"
    by simp
  have "answers \<lparr>status = 404, json_body = JsonPending\<rparr> (search_request (js ''webcam''))
        = FetchResolved \<lparr>status = 404, json_body = JsonPending\<rparr>
      \<and> (status \<lparr>status = 404, json_body = JsonPending\<rparr> < 200
           \<or> 299 < status \<lparr>status = 404, json_body = JsonPending\<rparr>)"
    by (simp add: answers_def)
  then have b: "answers \<lparr>status = 404, json_body = JsonPending\<rparr>
          (search_request (js ''webcam'')) = FetchRejected NonError
     \<or> (\<exists>r. answers \<lparr>status = 404, json_body = JsonPending\<rparr>
             (search_request (js ''webcam'')) = FetchResolved r
           \<and> (status r < 200 \<or> 299 < status r))"
    by blast
  show ?thesis
    using failed_search_discards_earlier_results
        [of "\<lambda>req. FetchRejected NonError" "js ''webcam''" NonError earlier_page, OF a]
      failed_search_discards_earlier_results
        [of "answers \<lparr>status = 404, json_body = JsonPending\<rparr>" "js ''webcam''"
          NonError earlier_page, OF b]
    by blast
qed

section \<open>A parsed body\<close>

text \<open>
  Every value but \<open>null\<close> and \<open>undefined\<close> has its members read without a throw.
\<close>

lemma member_of_readable:
  "d \<noteq> JNull \<Longrightarrow> d \<noteq> JUndefined \<Longrightarrow> \<exists>v. member_of d k = Inr v"
  by (cases d) simp_all

text \<open>
  C10 (amended). A response with a status in 200..299 whose parsed body is neither
  \<open>null\<close> nor \<open>undefined\<close>: its \<open>results\<close> and \<open>errors\<close> members are read
  (\<open>undefined\<close> standing for an absent one); a \<open>results\<close> member that is absent or
  \<open>null\<close> is replaced by the empty list, and so is an \<open>errors\<close> member; each
  member is otherwise stored as \<open>v || []\<close> leaves it, no error is set and the
  handler runs to its end.
\<close>

theorem missing_fields_default_to_empty:
  assumes "network (search_request q) = FetchResolved r"
    and "200 \<le> status r \<and> status r \<le> 299"
    and "json_body r = JsonResolved d"
    and "d \<noteq> JNull"
    and "d \<noteq> JUndefined"
  shows "\<exists>v w. member_of d (js ''results'') = Inr v
    \<and> member_of d (js ''errors'') = Inr w
    \<and> (v = JUndefined \<or> v = JNull \<longrightarrow> results (fst (handleSearch network q p)) = JArr [])
    \<and> (w = JUndefined \<or> w = JNull \<longrightarrow> adapterErrors (fst (handleSearch network q p)) = JArr [])
    \<and> results (fst (handleSearch network q p)) = or_else v (JArr [])
    \<and> adapterErrors (fst (handleSearch network q p)) = or_else w (JArr [])
    \<and> error (fst (handleSearch network q p)) = None
    \<and> \<not> loading (fst (handleSearch network q p))
    \<and> snd (handleSearch network q p) = [Fetch (search_request q), ReadJson]"
proof -
  obtain v where v: "member_of d (js ''results'') = Inr v"
    using member_of_readable[OF assms(4,5)] by blast
  obtain w where w: "member_of d (js ''errors'') = Inr w"
    using member_of_readable[OF assms(4,5)] by blast
  have "ok r" using assms(2) by (simp add: ok_def)
  then have h: "handleSearch network q p =
     (\<lparr>query = q, results = or_else v (JArr []), loading = False, error = None,
        adapterErrors = or_else w (JArr [])\<rparr>,
      [Fetch (search_request q), ReadJson])"
    using handleSearch_parsed[of network q r d v w p] assms(1,3) v w by simp
  have "(v = JUndefined \<or> v = JNull \<longrightarrow> or_else v (JArr []) = JArr [])
      \<and> (w = JUndefined \<or> w = JNull \<longrightarrow> or_else w (JArr []) = JArr [])"
    by (auto simp: or_else_def)
  then show ?thesis
    using v w by (intro exI[of _ v] exI[of _ w]) (simp add: h)
qed

theorem missing_fields_default_to_empty_witness:
  "JObj [(js ''errors'', JNull)] \<noteq> JNull
   \<and> JObj [(js ''errors'', JNull)] \<noteq> JUndefined
   \<and> member_of (JObj [(js ''errors'', JNull)]) (js ''results'') = Inr JUndefined
   \<and> member_of (JObj [(js ''errors'', JNull)]) (js ''errors'') = Inr JNull
   \<and> results (fst (handleSearch
       (answers \<lparr>status = 200, json_body = JsonResolved (JObj [(js ''errors'', JNull)])\<rparr>)
       (js ''camera'') earlier_page)) = JArr []
   \<and> adapterErrors (fst (handleSearch
       (answers \<lparr>status = 200, json_body = JsonResolved (JObj [(js ''errors'', JNull)])\<rparr>)
       (js ''camera'') earlier_page)) = JArr []
   \<and> error (fst (handleSearch
       (answers \<lparr>status = 200, json_body = JsonResolved (JObj [(js ''errors'', JNull)])\<rparr>)
       (js ''camera'') earlier_page)) = None"
proof -
  let ?d = "JObj [(js ''errors'', JNull)]"
  let ?r = "\<lparr>status = 200, json_body = JsonResolved ?d\<rparr>"
  have a: "answers ?r (search_request (js ''camera'')) = FetchResolved ?r"
    by (simp add: answers_def)
  have b: "200 \<le> status ?r \<and> status ?r \<le> 299"
    by simp
  have c: "json_body ?r = JsonResolved ?d"
    by simp
  have n: "?d \<noteq> JNull" "?d \<noteq> JUndefined"
    by simp_all
  have d: "member_of ?d (js ''results'') = Inr JUndefined"
    by (simp add: own_member_def js_def)
  have e: "member_of ?d (js ''errors'') = Inr JNull"
    by (simp add: own_member_def js_def)
  obtain v w where vw: "member_of ?d (js ''results'') = Inr v"
    "member_of ?d (js ''errors'') = Inr w"
    "v = JUndefined \<or> v = JNull \<longrightarrow>
       results (fst (handleSearch (answers ?r) (js ''camera'') earlier_page)) = JArr []"
    "w = JUndefined \<or> w = JNull \<longrightarrow>
       adapterErrors (fst (handleSearch (answers ?r) (js ''camera'') earlier_page)) = JArr []"
    "error (fst (handleSearch (answers ?r) (js ''camera'') earlier_page)) = None"
    using missing_fields_default_to_empty
        [of "answers ?r" "js ''camera''" ?r ?d earlier_page, OF a b c n]
    by blast
  have "v = JUndefined" "w = JNull"
    using vw(1,2) d e by simp_all
  then show ?thesis
    using vw(3,4,5) n d e by blast
qed

text \<open>
  C10 as stated fails where the parsed body is itself \<open>null\<close>, which lacks both
  members: with status 200, reading \<open>data.results\<close> throws, \<open>results\<close> is left
  \<open>null\<close> and not the empty list, the page holds the TypeError's message, and
  \<open>ResultsList\<close> returns the alert.
\<close>

theorem null_body_is_not_defaulted:
  "status \<lparr>status = 200, json_body = JsonResolved JNull\<rparr> = 200
   \<and> results (fst (handleSearch (answers \<lparr>status = 200, json_body = JsonResolved JNull\<rparr>)
        (js ''camera'') initial_page)) = JNull
   \<and> results (fst (handleSearch (answers \<lparr>status = 200, json_body = JsonResolved JNull\<rparr>)
        (js ''camera'') initial_page)) \<noteq> JArr []
   \<and> error (fst (handleSearch (answers \<lparr>status = 200, json_body = JsonResolved JNull\<rparr>)
        (js ''camera'') initial_page)) = Some (type_error_message JNull (js ''results''))
   \<and> render (fst (handleSearch (answers \<lparr>status = 200, json_body = JsonResolved JNull\<rparr>)
        (js ''camera'') initial_page)) = Some (VAlert (type_error_message JNull (js ''results'')))"
proof -
  let ?r = "\<lparr>status = 200, json_body = JsonResolved JNull\<rparr>"
  have a: "answers ?r (search_request (js ''camera'')) = FetchResolved ?r"
    by (simp add: answers_def)
  have b: "ok ?r"
    by (simp add: ok_def)
  have c: "json_body ?r = JsonResolved JNull"
    by simp
  have h: "handleSearch (answers ?r) (js ''camera'') initial_page =
     (\<lparr>query = js ''camera'', results = JNull, loading = False,
        error = Some (type_error_message JNull (js ''results'')), adapterErrors = JArr []\<rparr>,
      [Fetch (search_request (js ''camera'')), ReadJson])"
    using handleSearch_null_body[of "answers ?r" "js ''camera''" ?r initial_page, OF a b c] .
  have m: "type_error_message JNull (js ''results'') \<noteq> []"
    by (simp add: type_error_message_def js_def)
  show ?thesis
    unfolding h fst_conv
    using render_error_alone[of "\<lparr>query = js ''camera'', results = JNull, loading = False,
        error = Some (type_error_message JNull (js ''results'')), adapterErrors = JArr []\<rparr>"
        "type_error_message JNull (js ''results'')"] m
    by simp
qed

lemma as_SearchResult_json: "as_SearchResult (SearchResult_json r) = Some r"
  by (cases "url r")
     (simp_all add: as_SearchResult_def SearchResult_json_def own_member_def js_def
        as_string_def as_number_def as_optional_string_def)

lemma as_AdapterError_json: "as_AdapterError (AdapterError_json e) = Some e"
  by (simp add: as_AdapterError_def AdapterError_json_def own_member_def js_def as_string_def)

lemma those_map_Some: "(\<And>x. f (g x) = Some x) \<Longrightarrow> those (map (f \<circ> g) xs) = Some xs"
  by (induction xs) simp_all

lemma as_array_results: "as_array as_SearchResult (JArr (map SearchResult_json rs)) = Some rs"
  by (simp add: as_array_def those_map_Some as_SearchResult_json)

lemma as_array_errors: "as_array as_AdapterError (JArr (map AdapterError_json es)) = Some es"
  by (simp add: as_array_def those_map_Some as_AdapterError_json)

lemma own_member_response:
  "own_member [(js ''results'', a), (js ''errors'', b)] (js ''results'') = a"
  "own_member [(js ''results'', a), (js ''errors'', b)] (js ''errors'') = b"
  by (simp_all add: own_member_def js_def)

lemma handleSearch_SearchResponse:
  assumes "network (search_request q) = FetchResolved r"
    and "200 \<le> status r \<and> status r \<le> 299"
    and "json_body r = JsonResolved (SearchResponse_json rs es)"
  shows "handleSearch network q p =
     (\<lparr>query = q, results = JArr (map SearchResult_json rs), loading = False, error = None,
        adapterErrors = JArr (map AdapterError_json es)\<rparr>, [Fetch (search_request q), ReadJson])"
proof -
  have "ok r" using assms(2) by (simp add: ok_def)
  then show ?thesis
    using handleSearch_parsed[of network q r "SearchResponse_json rs es"
        "JArr (map SearchResult_json rs)" "JArr (map AdapterError_json es)" p] assms(1,3)
    by (simp add: SearchResponse_json_def own_member_response or_else_def)
qed

lemma render_SearchResponse:
  "render \<lparr>query = q, results = JArr (map SearchResult_json rs), loading = False, error = None,
        adapterErrors = JArr (map AdapterError_json es)\<rparr> =
     Some (if rs = []
           then VEmpty (if es = [] then None else Some es)
                  (if q \<noteq> [] then NoResultsFor q else SearchPrompt)
           else VResults (if es = [] then None else Some es) (map render_item rs))"
proof -
  have r: "as_results (JArr (map SearchResult_json rs)) = Some (Some rs)"
    using as_array_results[of rs] by (simp add: as_results_def)
  show ?thesis
    by (simp add: r as_array_errors render_def ResultsList_def)
qed

lemma render_arrays:
  assumes "as_array as_SearchResult (JArr xs) = Some rs"
    and "as_array as_AdapterError (JArr ys) = Some es"
  shows "render \<lparr>query = q, results = JArr xs, loading = False, error = None,
        adapterErrors = JArr ys\<rparr> =
     Some (if rs = []
           then VEmpty (if es = [] then None else Some es)
                  (if q \<noteq> [] then NoResultsFor q else SearchPrompt)
           else VResults (if es = [] then None else Some es) (map render_item rs))"
proof -
  have r: "as_results (JArr xs) = Some (Some rs)"
    using assms(1) by (simp add: as_results_def)
  show ?thesis
    by (simp add: r assms(2) render_def ResultsList_def)
qed

text \<open>
  C6. A response with a status in 200..299 whose parsed body has, as \<open>results\<close>, an
  array that reads as a list of \<open>SearchResult\<close> objects and, as \<open>errors\<close>, an
  array that reads as a list of adapter errors: the handler reads the body, stores
  the two members in \<open>results\<close> and \<open>adapterErrors\<close> and sets no error, and
  \<open>ResultsList\<close> reads both back at their declared types and displays them.
\<close>

theorem success_body_is_consumed:
  assumes "network (search_request q) = FetchResolved r"
    and "200 \<le> status r \<and> status r \<le> 299"
    and "json_body r = JsonResolved d"
    and "member_of d (js ''results'') = Inr (JArr xs)"
    and "member_of d (js ''errors'') = Inr (JArr ys)"
    and "as_array as_SearchResult (JArr xs) = Some rs"
    and "as_array as_AdapterError (JArr ys) = Some es"
  shows "snd (handleSearch network q p) = [Fetch (search_request q), ReadJson]
    \<and> fst (handleSearch network q p) =
        \<lparr>query = q, results = JArr xs, loading = False, error = None, adapterErrors = JArr ys\<rparr>
    \<and> as_results (results (fst (handleSearch network q p))) = Some (Some rs)
    \<and> as_array as_AdapterError (adapterErrors (fst (handleSearch network q p))) = Some es
    \<and> render (fst (handleSearch network q p)) =
        Some (if rs = []
              then VEmpty (if es = [] then None else Some es)
                     (if q \<noteq> [] then NoResultsFor q else SearchPrompt)
              else VResults (if es = [] then None else Some es) (map render_item rs))"
proof -
  have "ok r" using assms(2) by (simp add: ok_def)
  then have h: "handleSearch network q p =
     (\<lparr>query = q, results = JArr xs, loading = False, error = None, adapterErrors = JArr ys\<rparr>,
      [Fetch (search_request q), ReadJson])"
    using handleSearch_parsed[of network q r d "JArr xs" "JArr ys" p] assms(1,3,4,5)
    by (simp add: or_else_def)
  have r: "as_results (JArr xs) = Some (Some rs)"
    using assms(6) by (simp add: as_results_def)
  show ?thesis
    unfolding h fst_conv snd_conv
    using render_arrays[OF assms(6,7), of q] r assms(7) by simp
qed

theorem success_body_is_consumed_witness:
  "snd (handleSearch (answers \<lparr>status = 200, json_body = JsonResolved example_body\<rparr>)
      (js ''headphones'') initial_page)
     = [Fetch (search_request (js ''headphones'')), ReadJson]
   \<and> render (fst (handleSearch (answers \<lparr>status = 200, json_body = JsonResolved example_body\<rparr>)
      (js ''headphones'') initial_page))
     = Some (VResults None
         [\<lparr>item_key = js ''Retailer A-sku-1'', item_result = example_result,
           item_link = Some (js ''https://example.com/product'')\<rparr>])"
proof -
  let ?r = "\<lparr>status = 200, json_body = JsonResolved example_body\<rparr>"
  let ?x = "JObj [(js ''url'', JStr (js ''https://example.com/product'')),
              (js ''sku'', JStr (js ''sku-1'')),
              (js ''name'', JStr (js ''Noise Cancelling Headphones'')),
              (js ''retailer'', JStr (js ''Retailer A'')),
              (js ''price'', JNum (NumFin 1999)),
              (js ''currency'', JStr (js ''HKD'')),
              (js ''inStock'', JBool True)]"
  have a: "answers ?r (search_request (js ''headphones'')) = FetchResolved ?r"
    by (simp add: answers_def)
  have b: "200 \<le> status ?r \<and> status ?r \<le> 299"
    by simp
  have c: "json_body ?r = JsonResolved example_body"
    by simp
  have d: "member_of example_body (js ''results'') = Inr (JArr [?x])"
    by (simp add: example_body_def own_member_def js_def)
  have e: "member_of example_body (js ''errors'') = Inr (JArr [])"
    by (simp add: example_body_def own_member_def js_def)
  have f: "as_array as_SearchResult (JArr [?x]) = Some [example_result]"
    by (simp add: as_array_def as_SearchResult_def own_member_def js_def as_string_def
        as_number_def as_optional_string_def example_result_def)
  have g: "as_array as_AdapterError (JArr []) = Some []"
    by (simp add: as_array_def)
  have i: "map render_item [example_result] =
      [\<lparr>item_key = js ''Retailer A-sku-1'', item_result = example_result,
        item_link = Some (js ''https://example.com/product'')\<rparr>]"
    by (simp add: render_item_def example_result_def js_def)
  have n: "\<And>(a::view) b. (if [example_result] = [] then a else b) = b"
    by simp
  have m: "(if ([]::AdapterError list) = [] then None else Some []) = None"
    by simp
  show ?thesis
    using success_body_is_consumed[of "answers ?r" "js ''headphones''" ?r example_body "[?x]" "[]" "[example_result]" "[]"
        initial_page, OF a b c d e f g]
    unfolding n m i by blast
qed

section \<open>The request of a search\<close>

lemma nibbles:
  "4096 * ((n::nat) div 4096) + 256 * (n div 256 mod 16) + 16 * (n div 16 mod 16) + n mod 16 = n"
proof -
  have a: "n div 256 = n div 16 div 16" by (simp add: div_mult2_eq)
  have b: "n div 4096 = n div 16 div 16 div 16" by (simp add: div_mult2_eq)
  have c: "16 * (n div 16) + n mod 16 = n" by simp
  have d: "16 * (n div 16 div 16) + n div 16 mod 16 = n div 16" by simp
  have e: "16 * (n div 16 div 16 div 16) + n div 16 div 16 mod 16 = n div 16 div 16" by simp
  show ?thesis unfolding a b using c d e by linarith
qed


lemma hex_digit_values:
  "hex_digit 0 = 0x30" "hex_digit 1 = 0x31" "hex_digit 2 = 0x32" "hex_digit 3 = 0x33"
  "hex_digit 4 = 0x34" "hex_digit 5 = 0x35" "hex_digit 6 = 0x36" "hex_digit 7 = 0x37"
  "hex_digit 8 = 0x38" "hex_digit 9 = 0x39" "hex_digit 10 = 0x61" "hex_digit 11 = 0x62"
  "hex_digit 12 = 0x63" "hex_digit 13 = 0x64" "hex_digit 14 = 0x65" "hex_digit 15 = 0x66"
  by (simp_all add: hex_digit_def)

lemma hex_value_values:
  "hex_value 0x30 = Some 0" "hex_value 0x31 = Some 1" "hex_value 0x32 = Some 2"
  "hex_value 0x33 = Some 3" "hex_value 0x34 = Some 4" "hex_value 0x35 = Some 5"
  "hex_value 0x36 = Some 6" "hex_value 0x37 = Some 7" "hex_value 0x38 = Some 8"
  "hex_value 0x39 = Some 9" "hex_value 0x61 = Some 10" "hex_value 0x62 = Some 11"
  "hex_value 0x63 = Some 12" "hex_value 0x64 = Some 13" "hex_value 0x65 = Some 14"
  "hex_value 0x66 = Some 15"
  by (simp_all add: hex_value_def)

lemma less_16_cases:
  assumes "d < (16::nat)"
  shows "d = 0 \<or> d = 1 \<or> d = 2 \<or> d = 3 \<or> d = 4 \<or> d = 5 \<or> d = 6 \<or> d = 7
    \<or> d = 8 \<or> d = 9 \<or> d = 10 \<or> d = 11 \<or> d = 12 \<or> d = 13 \<or> d = 14 \<or> d = 15"
  using assms by arith

lemma hex_value_hex_digit: "d < 16 \<Longrightarrow> hex_value (hex_digit d) = Some d"
  by (drule less_16_cases) (elim disjE; simp only: hex_digit_values hex_value_values)


lemma hex4_unicode_escape:
  "hex4 (hex_digit (unat c div 4096)) (hex_digit (unat c div 256 mod 16))
        (hex_digit (unat c div 16 mod 16)) (hex_digit (unat c mod 16)) = Some c"
proof -
  have "unat c < 2 ^ 16" using unsigned_less[of c] by simp
  then have "unat c div 4096 < 16" by simp
  then have v1: "hex_value (hex_digit (unat c div 4096)) = Some (unat c div 4096)"
    by (rule hex_value_hex_digit)
  have v2: "hex_value (hex_digit (unat c div 256 mod 16)) = Some (unat c div 256 mod 16)"
    by (rule hex_value_hex_digit) simp
  have v3: "hex_value (hex_digit (unat c div 16 mod 16)) = Some (unat c div 16 mod 16)"
    by (rule hex_value_hex_digit) simp
  have v4: "hex_value (hex_digit (unat c mod 16)) = Some (unat c mod 16)"
    by (rule hex_value_hex_digit) simp
  have w: "(of_nat (unat c) :: 16 word) = c"
    by simp
  show ?thesis
    by (simp only: hex4_def v1 v2 v3 v4 Option.bind.simps nibbles w)
qed

lemma unquote_unicode_escape:
  "unquote_units (unicode_escape c @ rest) = map_option ((#) c) (unquote_units rest)"
  by (simp add: unicode_escape_def hex4_unicode_escape)

lemma unquote_escape_unit:
  "unquote_units (escape_unit c @ rest) = map_option ((#) c) (unquote_units rest)"
  by (simp add: escape_unit_def unquote_unicode_escape simple_escape_def)

lemma surrogate_plain:
  "is_high_surrogate c \<or> is_low_surrogate c \<Longrightarrow> c \<noteq> 0x5C \<and> c \<noteq> 0x22 \<and> \<not> c < 0x20"
  by (auto simp: is_high_surrogate_def is_low_surrogate_def word_le_nat_alt word_less_nat_alt)

lemma unquote_quote_units: "unquote_units (quote_units s) = Some s"
proof (induction s rule: quote_units.induct)
  case 1
  then show ?case by simp
next
  case (2 c)
  then show ?case
    using unquote_unicode_escape[of c "[]"] unquote_escape_unit[of c "[]"] by simp
next
  case (3 c d ds)
  then show ?case
    using surrogate_plain[of c] surrogate_plain[of d]
    by (simp add: unquote_unicode_escape unquote_escape_unit)
qed

lemma quote_units_query: "quote_units (js ''query'') = js ''query''"
  by (simp add: js_def escape_unit_def is_high_surrogate_def is_low_surrogate_def)

lemma stringify_query_text:
  \<open>stringify_query q = js ''{"query":"'' @ quote_units q @ js ''"}''\<close>
  by (simp add: stringify_query_def QuoteJSONString_def quote_units_query) (simp add: js_def)

lemma read_stringify_query: "read_query_body (stringify_query q) = Some q"
proof -
  have l: \<open>length (js ''{"query":"'') = 10\<close> \<open>length (js ''"}'') = 2\<close>
    by (simp_all add: js_def)
  show ?thesis
    unfolding read_query_body_def Let_def stringify_query_text
    by (simp add: l unquote_quote_units)
qed

text \<open>
  C5. The one \<open>fetch\<close> of a search is to \<open>/search\<close> with the method \<open>POST\<close>, the
  single header \<open>Content-Type: application/json\<close>, and the body
  \<open>{"query":"..."}\<close> holding the search string as \<open>JSON.stringify\<close> writes it:
  read as JSON, the body's \<open>query\<close> member is the search string, whatever code
  units it holds.
\<close>

theorem search_is_post_with_json_query:
  \<open>fetches (snd (handleSearch network q p)) = [search_request q]
   \<and> req_url (search_request q) = js ''/search''
   \<and> req_method (search_request q) = js ''POST''
   \<and> req_headers (search_request q) = [(js ''Content-Type'', js ''application/json'')]
   \<and> req_body (search_request q) = js ''{"query":"'' @ quote_units q @ js ''"}''
   \<and> read_query_body (req_body (search_request q)) = Some q\<close>
  by (simp add: fetches_handleSearch search_request_def stringify_query_text
      read_stringify_query[unfolded stringify_query_text])

theorem search_is_post_with_json_query_witness:
  \<open>fetches (snd (handleSearch (\<lambda>req. FetchPending) (js ''headphones'') initial_page))
     = [search_request (js ''headphones'')]
   \<and> req_url (search_request (js ''headphones'')) = js ''/search''
   \<and> req_method (search_request (js ''headphones'')) = js ''POST''
   \<and> req_headers (search_request (js ''headphones'')) = [(js ''Content-Type'', js ''application/json'')]
   \<and> req_body (search_request (js ''headphones'')) = js ''{"query":"headphones"}''
   \<and> read_query_body (js ''{"query":"headphones"}'') = Some (js ''headphones'')\<close>
proof -
  have e: \<open>js ''{"query":"'' @ quote_units (js ''headphones'') @ js ''"}'' = js ''{"query":"headphones"}''\<close>
    by (simp add: js_def escape_unit_def is_high_surrogate_def is_low_surrogate_def)
  show ?thesis
    using search_is_post_with_json_query[of "\<lambda>req. FetchPending" "js ''headphones''" initial_page]
    unfolding e by metis
qed

section \<open>The aggregation service: deduplication, ordering, outcomes\<close>

lemma dedup_snoc: "dedup (ps @ [q]) = retain_lowest q (dedup ps)"
  by (simp add: dedup_def)

lemma keys_retain_lowest:
  "map dedup_key (retain_lowest q K) =
     (if dedup_key q \<in> set (map dedup_key K) then map dedup_key K
      else map dedup_key K @ [dedup_key q])"
  by (induction K) auto

lemma distinct_keys_retain_lowest:
  "distinct (map dedup_key K) \<Longrightarrow> distinct (map dedup_key (retain_lowest q K))"
  by (simp add: keys_retain_lowest)

lemma set_retain_lowest_subset: "set (retain_lowest q K) \<subseteq> insert q (set K)"
  by (induction K) auto

lemma in_retain_lowest:
  assumes "distinct (map dedup_key K)" and "r \<in> set (retain_lowest q K)"
  shows "(r = q \<and> (\<forall>k \<in> set K. dedup_key k = dedup_key q \<longrightarrow> price q < price k))
       \<or> (r \<in> set K \<and> (dedup_key r = dedup_key q \<longrightarrow> \<not> price q < price r))"
  using assms
proof (induction K)
  case Nil
  then show ?case by simp
next
  case (Cons k K)
  then show ?case by (auto split: if_splits simp: image_iff)
qed

lemma key_covered_retain_lowest:
  "x = q \<or> x \<in> set K \<Longrightarrow> \<exists>k \<in> set (retain_lowest q K). dedup_key k = dedup_key x"
proof -
  assume a: "x = q \<or> x \<in> set K"
  have "dedup_key x \<in> set (map dedup_key (retain_lowest q K))"
    using a by (auto simp: keys_retain_lowest)
  then show ?thesis by auto
qed

lemma find_snoc:
  "find P (xs @ [y]) = (case find P xs of Some x \<Rightarrow> Some x | None \<Rightarrow> if P y then Some y else None)"
  by (induction xs) auto

lemma distinct_keys_dedup: "distinct (map dedup_key (dedup ps))"
  by (induction ps rule: rev_induct) (simp_all add: dedup_snoc distinct_keys_retain_lowest, simp add: dedup_def)

lemma set_dedup_subset: "set (dedup ps) \<subseteq> set ps"
proof (induction ps rule: rev_induct)
  case Nil
  then show ?case by (simp add: dedup_def)
next
  case (snoc q ps)
  then show ?case
    using set_retain_lowest_subset[of q "dedup ps"] by (auto simp: dedup_snoc)
qed

lemma key_covered_dedup: "q \<in> set ps \<Longrightarrow> \<exists>k \<in> set (dedup ps). dedup_key k = dedup_key q"
proof (induction ps rule: rev_induct)
  case Nil
  then show ?case by simp
next
  case (snoc q' ps)
  then have "q = q' \<or> (\<exists>k \<in> set (dedup ps). dedup_key k = dedup_key q)" by auto
  then show ?case
  proof
    assume "q = q'"
    then show ?thesis
      using key_covered_retain_lowest[of q q' "dedup ps"] by (simp add: dedup_snoc)
  next
    assume "\<exists>k \<in> set (dedup ps). dedup_key k = dedup_key q"
    then obtain k where k: "k \<in> set (dedup ps)" "dedup_key k = dedup_key q" by blast
    then show ?thesis
      using key_covered_retain_lowest[of k q' "dedup ps"] by (auto simp: dedup_snoc)
  qed
qed

lemma dedup_lowest:
  "k \<in> set (dedup ps) \<Longrightarrow> q \<in> set ps \<Longrightarrow> dedup_key q = dedup_key k \<Longrightarrow> price k \<le> price q"
proof (induction ps arbitrary: k q rule: rev_induct)
  case Nil
  then show ?case by simp
next
  case (snoc q' ps)
  from snoc.prems(1) have "k \<in> set (retain_lowest q' (dedup ps))" by (simp add: dedup_snoc)
  then consider
      (new) "k = q'" "\<forall>k0 \<in> set (dedup ps). dedup_key k0 = dedup_key q' \<longrightarrow> price q' < price k0"
    | (old) "k \<in> set (dedup ps)" "dedup_key k = dedup_key q' \<longrightarrow> \<not> price q' < price k"
    using in_retain_lowest[OF distinct_keys_dedup, of k q' ps] by blast
  then show ?case
  proof cases
    case new
    show ?thesis
    proof (cases "q = q'")
      case True
      then show ?thesis using new by simp
    next
      case False
      then have qin: "q \<in> set ps" using snoc.prems(2) by simp
      then obtain k0 where k0: "k0 \<in> set (dedup ps)" "dedup_key k0 = dedup_key q"
        using key_covered_dedup by blast
      then have "price k0 \<le> price q" using snoc.IH[of k0 q] qin by simp
      moreover have "price q' < price k0" using new k0 snoc.prems(3) by simp
      ultimately show ?thesis using new by simp
    qed
  next
    case old
    show ?thesis
    proof (cases "q \<in> set ps")
      case True
      then show ?thesis using snoc.IH[of k q] old snoc.prems(3) by simp
    next
      case False
      then have "q = q'" using snoc.prems(2) by simp
      then show ?thesis using old snoc.prems(3) by simp
    qed
  qed
qed

lemma dedup_first_seen:
  "k \<in> set (dedup ps) \<Longrightarrow>
     find (\<lambda>x. dedup_key x = dedup_key k \<and> price x = price k) ps = Some k"
proof (induction ps arbitrary: k rule: rev_induct)
  case Nil
  then show ?case by (simp add: dedup_def)
next
  case (snoc q' ps)
  from snoc.prems have "k \<in> set (retain_lowest q' (dedup ps))" by (simp add: dedup_snoc)
  then consider
      (new) "k = q'" "\<forall>k0 \<in> set (dedup ps). dedup_key k0 = dedup_key q' \<longrightarrow> price q' < price k0"
    | (old) "k \<in> set (dedup ps)"
    using in_retain_lowest[OF distinct_keys_dedup, of k q' ps] by blast
  then show ?case
  proof cases
    case new
    have "find (\<lambda>x. dedup_key x = dedup_key q' \<and> price x = price q') ps = None"
    proof (rule ccontr)
      assume "find (\<lambda>x. dedup_key x = dedup_key q' \<and> price x = price q') ps \<noteq> None"
      then obtain x where x: "x \<in> set ps" "dedup_key x = dedup_key q'" "price x = price q'"
        by (auto simp: find_None_iff)
      then obtain k0 where k0: "k0 \<in> set (dedup ps)" "dedup_key k0 = dedup_key x"
        using key_covered_dedup by blast
      then have "price k0 \<le> price x" using dedup_lowest[of k0 ps x] x by simp
      moreover have "price q' < price k0" using new k0 x by simp
      ultimately show False using x by simp
    qed
    then show ?thesis using new by (simp add: find_snoc)
  next
    case old
    then show ?thesis using snoc.IH[of k] by (simp add: find_snoc)
  qed
qed

lemma set_aggregate: "set (aggregate qss) = set (dedup (concat qss))"
  by (simp add: aggregate_def)

lemma mset_aggregate: "mset (aggregate qss) = mset (dedup (concat qss))"
  by (simp add: aggregate_def)

lemma distinct_keys_aggregate: "distinct (map dedup_key (aggregate qss))"
proof -
  have "mset (map dedup_key (aggregate qss)) = mset (map dedup_key (dedup (concat qss)))"
    by (simp add: mset_aggregate)
  then show ?thesis
    using distinct_keys_dedup[of "concat qss"] by (metis mset_eq_imp_distinct_iff)
qed

text \<open>
  C1. In the aggregated list no two quotes share \<open>(retailer, sku)\<close>. Every quote
  of the list is one of the emitted quotes, no emitted quote of its key is cheaper,
  and it is the first, in adapter-then-emission order, of the emitted quotes of its
  key and price. Every key emitted has its survivor in the list.
\<close>

theorem aggregate_keeps_lowest_first_seen:
  "distinct (map dedup_key (aggregate qss))
   \<and> (\<forall>r \<in> set (aggregate qss).
        r \<in> set (concat qss)
        \<and> (\<forall>q \<in> set (concat qss). dedup_key q = dedup_key r \<longrightarrow> price r \<le> price q)
        \<and> find (\<lambda>x. dedup_key x = dedup_key r \<and> price x = price r) (concat qss) = Some r)
   \<and> (\<forall>q \<in> set (concat qss). \<exists>r \<in> set (aggregate qss). dedup_key r = dedup_key q)"
proof (intro conjI ballI impI)
  show "distinct (map dedup_key (aggregate qss))" by (rule distinct_keys_aggregate)
next
  fix r assume "r \<in> set (aggregate qss)"
  then have r: "r \<in> set (dedup (concat qss))" by (simp add: set_aggregate)
  show "r \<in> set (concat qss)" using r set_dedup_subset by blast
  show "find (\<lambda>x. dedup_key x = dedup_key r \<and> price x = price r) (concat qss) = Some r"
    using r by (rule dedup_first_seen)
  fix q assume "q \<in> set (concat qss)" "dedup_key q = dedup_key r"
  then show "price r \<le> price q" using dedup_lowest[OF r] by blast
next
  fix q assume "q \<in> set (concat qss)"
  then show "\<exists>r \<in> set (aggregate qss). dedup_key r = dedup_key q"
    using key_covered_dedup[of q "concat qss"] by (simp add: set_aggregate)
qed

text \<open>
  C2. The aggregated list is ascending in \<open>(price, retailer, sku)\<close>: of two
  positions, the earlier quote has the lower price, or the same price and the
  lexicographically smaller retailer, or the same price and retailer and the
  lexicographically smaller sku.
\<close>

theorem aggregate_ordered_by_price_retailer_sku:
  "sorted (map ordering_key (aggregate qss))
   \<and> (\<forall>i j. i < j \<and> j < length (aggregate qss) \<longrightarrow>
         price (aggregate qss ! i) < price (aggregate qss ! j)
         \<or> (price (aggregate qss ! i) = price (aggregate qss ! j)
            \<and> (retailer (aggregate qss ! i) < retailer (aggregate qss ! j)
               \<or> (retailer (aggregate qss ! i) = retailer (aggregate qss ! j)
                  \<and> sku (aggregate qss ! i) < sku (aggregate qss ! j)))))"
proof (intro conjI allI impI)
  show s: "sorted (map ordering_key (aggregate qss))"
    by (simp add: aggregate_def)
  fix i j assume ij: "i < j \<and> j < length (aggregate qss)"
  let ?a = "aggregate qss ! i" and ?b = "aggregate qss ! j"
  have "map ordering_key (aggregate qss) ! i \<le> map ordering_key (aggregate qss) ! j"
    using s ij by (intro sorted_nth_mono) auto
  then have le: "ordering_key ?a \<le> ordering_key ?b" using ij by simp
  have "map dedup_key (aggregate qss) ! i \<noteq> map dedup_key (aggregate qss) ! j"
    using nth_eq_iff_index_eq[OF distinct_keys_aggregate[of qss], of i j] ij by simp
  then have ne: "dedup_key ?a \<noteq> dedup_key ?b" using ij by simp
  show "price ?a < price ?b
         \<or> (price ?a = price ?b
            \<and> (retailer ?a < retailer ?b \<or> (retailer ?a = retailer ?b \<and> sku ?a < sku ?b)))"
    using le ne by (auto simp: ordering_key_def dedup_key_def less_eq_prod_def)
qed

lemma aggregate_example:
  "aggregate example_emissions = [quote_of ''A'' ''1'' 90 ''second'', quote_of ''B'' ''7'' 90 ''other'']"
  by (simp add: aggregate_def example_emissions_def dedup_def dedup_key_def ordering_key_def
      quote_of_def js_def)

theorem aggregate_keeps_lowest_first_seen_witness:
  "aggregate example_emissions = [quote_of ''A'' ''1'' 90 ''second'', quote_of ''B'' ''7'' 90 ''other'']
   \<and> distinct (map dedup_key (aggregate example_emissions))
   \<and> quote_of ''A'' ''1'' 90 ''second'' \<in> set (concat example_emissions)
   \<and> price (quote_of ''A'' ''1'' 90 ''second'') \<le> price (quote_of ''A'' ''1'' 100 ''first'')
   \<and> find (\<lambda>x. dedup_key x = dedup_key (quote_of ''A'' ''1'' 90 ''second'')
                \<and> price x = price (quote_of ''A'' ''1'' 90 ''second''))
        (concat example_emissions) = Some (quote_of ''A'' ''1'' 90 ''second'')"
proof -
  have r: "quote_of ''A'' ''1'' 90 ''second'' \<in> set (aggregate example_emissions)"
    by (simp add: aggregate_example)
  have q: "quote_of ''A'' ''1'' 100 ''first'' \<in> set (concat example_emissions)"
    by (simp add: example_emissions_def)
  have k: "dedup_key (quote_of ''A'' ''1'' 100 ''first'') = dedup_key (quote_of ''A'' ''1'' 90 ''second'')"
    by (simp add: dedup_key_def quote_of_def)
  show ?thesis
    using aggregate_keeps_lowest_first_seen[of example_emissions] r q k aggregate_example by blast
qed

theorem aggregate_ordered_by_price_retailer_sku_witness:
  "aggregate example_emissions = [quote_of ''A'' ''1'' 90 ''second'', quote_of ''B'' ''7'' 90 ''other'']
   \<and> sorted (map ordering_key (aggregate example_emissions))
   \<and> price (aggregate example_emissions ! 0) = price (aggregate example_emissions ! 1)
   \<and> retailer (aggregate example_emissions ! 0) < retailer (aggregate example_emissions ! 1)"
proof -
  have l: "(0::nat) < 1 \<and> 1 < length (aggregate example_emissions)"
    by (simp add: aggregate_example)
  have p: "price (aggregate example_emissions ! 0) = price (aggregate example_emissions ! 1)"
    by (simp add: aggregate_example quote_of_def)
  have n: "retailer (aggregate example_emissions ! 0) \<noteq> retailer (aggregate example_emissions ! 1)"
    by (simp add: aggregate_example quote_of_def js_def)
  show ?thesis
    using aggregate_ordered_by_price_retailer_sku[of example_emissions] l p n aggregate_example by (metis less_irrefl)
qed

lemma orchestrate_names: "map fst (orchestrate registry q) = map adapter_name registry"
  by (simp add: orchestrate_def)

lemma failures_from_registry:
  "e \<in> set (failures (orchestrate registry q)) \<longleftrightarrow>
     (\<exists>a \<in> set registry. adapter e = adapter_name a \<and> run_adapter a q = Failed (error_text e))"
proof (induction registry)
  case Nil
  then show ?case by (simp add: orchestrate_def)
next
  case (Cons a registry)
  then show ?case
    by (cases "run_adapter a q") (auto simp: orchestrate_def)
qed

lemma successes_from_registry:
  "qs \<in> set (successes (orchestrate registry q)) \<longleftrightarrow>
     (\<exists>a \<in> set registry. run_adapter a q = Success qs)"
proof (induction registry)
  case Nil
  then show ?case by (simp add: orchestrate_def)
next
  case (Cons a registry)
  then show ?case
    by (cases "run_adapter a q") (auto simp: orchestrate_def)
qed

lemma distinct_failures:
  "distinct (map adapter_name registry) \<Longrightarrow>
     distinct (map adapter (failures (orchestrate registry q)))"
proof (induction registry)
  case Nil
  then show ?case by (simp add: orchestrate_def)
next
  case (Cons a registry)
  have tl: "orchestrate (a # registry) q = (adapter_name a, run_adapter a q) # orchestrate registry q"
    by (simp add: orchestrate_def)
  have "adapter_name a \<notin> adapter ` set (failures (orchestrate registry q))"
    using Cons.prems by (auto simp: failures_from_registry)
  then show ?case
    using Cons by (cases "run_adapter a q") (simp_all add: tl)
qed

lemma filter_unique:
  "distinct (map f xs) \<Longrightarrow> x \<in> set xs \<Longrightarrow> filter (\<lambda>y. f y = f x) xs = [x]"
proof (induction xs)
  case Nil
  then show ?case by simp
next
  case (Cons y ys)
  show ?case
  proof (cases "y = x")
    case True
    then have "\<forall>z \<in> set ys. f z \<noteq> f x" using Cons.prems(1) by (auto simp: image_iff)
    then have "filter (\<lambda>y. f y = f x) ys = []" by (simp add: filter_empty_conv)
    then show ?thesis using True by simp
  next
    case False
    then have "x \<in> set ys" using Cons.prems(2) by simp
    then have "f y \<noteq> f x" using Cons.prems(1) by (auto simp: image_iff)
    then show ?thesis using Cons \<open>x \<in> set ys\<close> by simp
  qed
qed

text \<open>
  C3. With adapter names unique in the registry: the outcomes list every adapter
  once, in registration order; no two error entries name the same adapter; an
  adapter that failed has exactly one error entry, with its cause; an adapter that
  succeeded has none, and each quote it returned is represented in the results by a
  quote of its key at no higher price; and every result was returned by an adapter
  that succeeded.
\<close>

theorem every_adapter_represented_once:
  assumes "distinct (map adapter_name registry)"
  shows "map fst (orchestrate registry q) = map adapter_name registry
    \<and> distinct (map adapter (response_errors (assemble (orchestrate registry q))))
    \<and> (\<forall>a \<in> set registry.
          (\<forall>cause. run_adapter a q = Failed cause \<longrightarrow>
              filter (\<lambda>e. adapter e = adapter_name a)
                (response_errors (assemble (orchestrate registry q)))
              = [\<lparr>adapter = adapter_name a, error_text = cause\<rparr>])
        \<and> (\<forall>qs. run_adapter a q = Success qs \<longrightarrow>
              filter (\<lambda>e. adapter e = adapter_name a)
                (response_errors (assemble (orchestrate registry q))) = []
              \<and> (\<forall>x \<in> set qs. \<exists>r \<in> set (response_results (assemble (orchestrate registry q))).
                    dedup_key r = dedup_key x \<and> price r \<le> price x)))
    \<and> (\<forall>r \<in> set (response_results (assemble (orchestrate registry q))).
          \<exists>a \<in> set registry. \<exists>qs. run_adapter a q = Success qs \<and> r \<in> set qs)"
proof (intro conjI ballI allI impI)
  let ?errs = "response_errors (assemble (orchestrate registry q))"
  let ?res = "response_results (assemble (orchestrate registry q))"
  have errs: "?errs = failures (orchestrate registry q)" by (simp add: assemble_def)
  have res: "?res = aggregate (successes (orchestrate registry q))" by (simp add: assemble_def)
  show "map fst (orchestrate registry q) = map adapter_name registry"
    by (rule orchestrate_names)
  show d: "distinct (map adapter ?errs)"
    unfolding errs using assms by (rule distinct_failures)
  {
    fix a cause assume a: "a \<in> set registry" and f: "run_adapter a q = Failed cause"
    let ?e = "\<lparr>adapter = adapter_name a, error_text = cause\<rparr>"
    have "?e \<in> set ?errs"
      unfolding errs failures_from_registry using a f by auto
    then have "filter (\<lambda>y. adapter y = adapter ?e) ?errs = [?e]"
      using filter_unique[OF d] by blast
    then show "filter (\<lambda>e. adapter e = adapter_name a) ?errs = [?e]" by simp
  }
  {
    fix a qs assume a: "a \<in> set registry" and s: "run_adapter a q = Success qs"
    have "\<forall>e \<in> set ?errs. adapter e \<noteq> adapter_name a"
    proof
      fix e assume "e \<in> set ?errs"
      then obtain b where b: "b \<in> set registry" "adapter e = adapter_name b"
        "run_adapter b q = Failed (error_text e)"
        unfolding errs failures_from_registry by blast
      have "b \<noteq> a" using b(3) s by auto
      then have "adapter_name b \<noteq> adapter_name a"
        using assms a b(1) by (auto simp: distinct_map inj_on_def)
      then show "adapter e \<noteq> adapter_name a" using b(2) by simp
    qed
    then show "filter (\<lambda>e. adapter e = adapter_name a) ?errs = []"
      by (simp add: filter_empty_conv)
    fix x assume x: "x \<in> set qs"
    have "qs \<in> set (successes (orchestrate registry q))"
      unfolding successes_from_registry using a s by blast
    then have xin: "x \<in> set (concat (successes (orchestrate registry q)))" using x by auto
    then obtain k where k: "k \<in> set (dedup (concat (successes (orchestrate registry q))))"
      "dedup_key k = dedup_key x"
      using key_covered_dedup by blast
    then have "price k \<le> price x" using dedup_lowest[OF k(1) xin] by simp
    then show "\<exists>r \<in> set ?res. dedup_key r = dedup_key x \<and> price r \<le> price x"
      unfolding res set_aggregate using k by blast
  }
  {
    fix r assume "r \<in> set ?res"
    then have "r \<in> set (concat (successes (orchestrate registry q)))"
      unfolding res set_aggregate using set_dedup_subset by blast
    then obtain qs where "qs \<in> set (successes (orchestrate registry q))" "r \<in> set qs" by auto
    then show "\<exists>a \<in> set registry. \<exists>qs. run_adapter a q = Success qs \<and> r \<in> set qs"
      unfolding successes_from_registry by blast
  }
qed

theorem every_adapter_represented_once_witness:
  "distinct (map adapter_name [broadway, fortress, price_com_hk])
   \<and> filter (\<lambda>e. adapter e = js ''Price.com.hk'')
        (response_errors (assemble (orchestrate [broadway, fortress, price_com_hk] (js ''tv''))))
      = [\<lparr>adapter = js ''Price.com.hk'', error_text = js ''HTTP 403''\<rparr>]
   \<and> filter (\<lambda>e. adapter e = js ''Fortress'')
        (response_errors (assemble (orchestrate [broadway, fortress, price_com_hk] (js ''tv''))))
      = [\<lparr>adapter = js ''Fortress'', error_text = js ''timeout''\<rparr>]
   \<and> filter (\<lambda>e. adapter e = js ''Broadway'')
        (response_errors (assemble (orchestrate [broadway, fortress, price_com_hk] (js ''tv''))))
      = []"
proof -
  have d: "distinct (map adapter_name [broadway, fortress, price_com_hk])"
    by (simp add: broadway_def fortress_def price_com_hk_def js_def)
  have m: "broadway \<in> set [broadway, fortress, price_com_hk]"
    "fortress \<in> set [broadway, fortress, price_com_hk]"
    "price_com_hk \<in> set [broadway, fortress, price_com_hk]"
    by simp_all
  have r: "run_adapter broadway (js ''tv'') = Success [quote_of ''Broadway'' ''1'' 100 ''tv'']"
    "run_adapter fortress (js ''tv'') = Failed (js ''timeout'')"
    "run_adapter price_com_hk (js ''tv'') = Failed (js ''HTTP 403'')"
    by (simp_all add: run_adapter_def broadway_def fortress_def price_com_hk_def)
  have n: "adapter_name broadway = js ''Broadway''" "adapter_name fortress = js ''Fortress''"
    "adapter_name price_com_hk = js ''Price.com.hk''"
    by (simp_all add: broadway_def fortress_def price_com_hk_def)
  show ?thesis
    using every_adapter_represented_once[OF d, of "js ''tv''"] m r d unfolding n[symmetric] by blast
qed

lemma all_failed:
  "\<forall>a \<in> set registry. \<exists>cause. run_adapter a q = Failed cause \<Longrightarrow>
     successes (orchestrate registry q) = []
     \<and> map adapter (failures (orchestrate registry q)) = map adapter_name registry"
proof (induction registry)
  case Nil
  then show ?case by (simp add: orchestrate_def)
next
  case (Cons a registry)
  then obtain cause where "run_adapter a q = Failed cause" by auto
  then show ?case using Cons by (simp add: orchestrate_def)
qed

lemma aggregate_Nil: "aggregate [] = []"
  by (simp add: aggregate_def dedup_def)

text \<open>
  C8. When every adapter of a non-empty registry fails, the request is answered
  with status 200, empty results and one error entry per adapter in registration
  order; the page that receives this response holds no error, and \<open>ResultsList\<close>
  returns the adapter-error notice with the no-results message, not the alert.
\<close>

theorem total_failure_is_degraded_success:
  assumes "registry \<noteq> []"
    and "\<forall>a \<in> set registry. \<exists>cause. run_adapter a q = Failed cause"
    and "trim q \<noteq> []"
    and "network (search_request q) = FetchResolved (http_success (assemble (orchestrate registry q)))"
  shows "post_search registry q = Success200 (assemble (orchestrate registry q))
    \<and> status (http_success (assemble (orchestrate registry q))) = 200
    \<and> response_results (assemble (orchestrate registry q)) = []
    \<and> map adapter (response_errors (assemble (orchestrate registry q))) = map adapter_name registry
    \<and> error (fst (handleSearch network q p)) = None
    \<and> render (fst (handleSearch network q p)) =
        Some (VEmpty (Some (response_errors (assemble (orchestrate registry q)))) (NoResultsFor q))"
proof -
  let ?resp = "assemble (orchestrate registry q)"
  have f: "successes (orchestrate registry q) = []"
    "map adapter (failures (orchestrate registry q)) = map adapter_name registry"
    using all_failed[OF assms(2)] by simp_all
  have res: "response_results ?resp = []" by (simp add: assemble_def f aggregate_Nil)
  have errs: "map adapter (response_errors ?resp) = map adapter_name registry"
    by (simp add: assemble_def f)
  then have ne: "response_errors ?resp \<noteq> []" using assms(1) by auto
  have q: "q \<noteq> []" using assms(3) by (auto simp: trim_def)
  have st: "200 \<le> status (http_success ?resp) \<and> status (http_success ?resp) \<le> 299"
    by (simp add: http_success_def)
  have body: "json_body (http_success ?resp)
      = JsonResolved (SearchResponse_json (response_results ?resp) (response_errors ?resp))"
    by (simp add: http_success_def)
  have h: "handleSearch network q p =
     (\<lparr>query = q, results = JArr (map SearchResult_json (response_results ?resp)), loading = False,
        error = None, adapterErrors = JArr (map AdapterError_json (response_errors ?resp))\<rparr>,
      [Fetch (search_request q), ReadJson])"
    using handleSearch_SearchResponse[of network q "http_success ?resp" "response_results ?resp"
        "response_errors ?resp" p, OF assms(4) st body] .
  have "render (fst (handleSearch network q p)) =
     Some (if response_results ?resp = []
           then VEmpty (if response_errors ?resp = [] then None else Some (response_errors ?resp))
                  (if q \<noteq> [] then NoResultsFor q else SearchPrompt)
           else VResults (if response_errors ?resp = [] then None else Some (response_errors ?resp))
                  (map render_item (response_results ?resp)))"
    unfolding h fst_conv by (rule render_SearchResponse)
  then have rd: "render (fst (handleSearch network q p)) =
     Some (VEmpty (Some (response_errors ?resp)) (NoResultsFor q))"
    using res ne q by simp
  have er: "error (fst (handleSearch network q p)) = None"
    by (simp add: h)
  show ?thesis
    using res errs assms(3) rd er
    by (simp add: post_search_def http_success_def)
qed

theorem total_failure_is_degraded_success_witness:
  "[fortress, price_com_hk] \<noteq> []
   \<and> trim (js ''camera'') \<noteq> []
   \<and> response_results (assemble (orchestrate [fortress, price_com_hk] (js ''camera''))) = []
   \<and> response_errors (assemble (orchestrate [fortress, price_com_hk] (js ''camera'')))
       = [\<lparr>adapter = js ''Fortress'', error_text = js ''timeout''\<rparr>,
          \<lparr>adapter = js ''Price.com.hk'', error_text = js ''HTTP 403''\<rparr>]
   \<and> render (fst (handleSearch
         (answers (http_success (assemble (orchestrate [fortress, price_com_hk] (js ''camera'')))))
         (js ''camera'') initial_page))
       = Some (VEmpty (Some [\<lparr>adapter = js ''Fortress'', error_text = js ''timeout''\<rparr>,
                             \<lparr>adapter = js ''Price.com.hk'', error_text = js ''HTTP 403''\<rparr>])
                 (NoResultsFor (js ''camera'')))"
proof -
  let ?reg = "[fortress, price_com_hk]"
  let ?resp = "assemble (orchestrate ?reg (js ''camera''))"
  have a: "?reg \<noteq> []" by simp
  have b: "\<forall>a \<in> set ?reg. \<exists>cause. run_adapter a (js ''camera'') = Failed cause"
    by (simp add: run_adapter_def fortress_def price_com_hk_def)
  have c: "trim (js ''camera'') \<noteq> []"
    by (simp add: trim_def js_def is_whitespace_def)
  have d: "answers (http_success ?resp) (search_request (js ''camera''))
      = FetchResolved (http_success ?resp)"
    by (simp add: answers_def)
  have e: "response_errors ?resp
       = [\<lparr>adapter = js ''Fortress'', error_text = js ''timeout''\<rparr>,
          \<lparr>adapter = js ''Price.com.hk'', error_text = js ''HTTP 403''\<rparr>]"
    by (simp add: assemble_def orchestrate_def run_adapter_def fortress_def price_com_hk_def)
  show ?thesis
    using total_failure_is_degraded_success[of ?reg "js ''camera''" "answers (http_success ?resp)" initial_page, OF a b c d]
      a c e by metis
qed

end
